theory Spec2Isabelle
  imports Complex_Main
begin

section \<open>Python text and numbers\<close>

text \<open>
  The program is one Python module, \<^verbatim>\<open>gui.py\<close>. Text is modelled as \<^typ>\<open>string\<close>, each
  character standing for a code point below 256. The built-in functions the module
  calls on text (\<^verbatim>\<open>str.strip\<close>, \<^verbatim>\<open>str.startswith\<close>, \<^verbatim>\<open>int\<close>, \<^verbatim>\<open>float\<close>, \<^verbatim>\<open>str\<close>) are
  written out below as CPython defines them on such text.
\<close>

definition py_isspace :: "char \<Rightarrow> bool" where
  "py_isspace c \<longleftrightarrow>
     c \<in> set [CHR 0x09, CHR 0x0A, CHR 0x0B, CHR 0x0C, CHR 0x0D,
               CHR 0x1C, CHR 0x1D, CHR 0x1E, CHR 0x1F, CHR 0x20, CHR 0x85, CHR 0xA0]"

definition py_strip :: "string \<Rightarrow> string" where
  "py_strip s = rev (dropWhile py_isspace (rev (dropWhile py_isspace s)))"

definition startswith :: "string \<Rightarrow> string \<Rightarrow> bool" where
  "startswith s p \<longleftrightarrow> take (length p) s = p"

fun contains :: "string \<Rightarrow> string \<Rightarrow> bool" where
  "contains [] p = (p = [])"
| "contains (c # cs) p = (startswith (c # cs) p \<or> contains cs p)"

definition digit_value :: "char \<Rightarrow> nat option" where
  "digit_value c =
     (let n = (of_char c :: nat) in
      if 48 \<le> n \<and> n \<le> 57 then Some (n - 48)
      else if 97 \<le> n \<and> n \<le> 122 then Some (n - 87)
      else if 65 \<le> n \<and> n \<le> 90 then Some (n - 55)
      else None)"

text \<open>
  The digits of an integer literal: at least one digit, single underscores between
  digits only. \<open>scan_digits b acc us cs\<close> reads \<open>cs\<close> in base \<open>b\<close>; \<open>us\<close> says that the
  character just read was an underscore.
\<close>

fun scan_digits :: "nat \<Rightarrow> nat \<Rightarrow> bool \<Rightarrow> string \<Rightarrow> nat option" where
  "scan_digits b acc us [] = (if us then None else Some acc)"
| "scan_digits b acc us (c # cs) =
     (if c = CHR ''_'' then (if us then None else scan_digits b acc True cs)
      else case digit_value c of
             None \<Rightarrow> None
           | Some d \<Rightarrow> if d < b then scan_digits b (acc * b + d) False cs else None)"

definition literal_digits :: "nat \<Rightarrow> string \<Rightarrow> nat option" where
  "literal_digits b cs =
     (case cs of [] \<Rightarrow> None
      | c # _ \<Rightarrow> if c = CHR ''_'' then None else scan_digits b 0 False cs)"

definition split_sign :: "string \<Rightarrow> bool \<times> string" where
  "split_sign s =
     (case s of
        c # cs \<Rightarrow> if c = CHR ''+'' then (False, cs)
                  else if c = CHR ''-'' then (True, cs) else (False, s)
      | [] \<Rightarrow> (False, []))"

text \<open>
  \<^verbatim>\<open>int(s, base)\<close> for base 10 and base 16: surrounding whitespace, a sign, for base 16
  an optional \<^verbatim>\<open>0x\<close> or \<^verbatim>\<open>0X\<close> (which one underscore may follow), then the digits.
  \<open>None\<close> is the \<^verbatim>\<open>ValueError\<close>. The interpreter's limit on the number of decimal digits
  is not modelled.
\<close>

definition strip_prefix16 :: "string \<Rightarrow> string" where
  "strip_prefix16 s =
     (case s of
        c0 # c1 # cs \<Rightarrow>
          if c0 = CHR ''0'' \<and> (c1 = CHR ''x'' \<or> c1 = CHR ''X'')
          then (case cs of c2 # cs' \<Rightarrow> if c2 = CHR ''_'' then cs' else cs | [] \<Rightarrow> cs)
          else s
      | _ \<Rightarrow> s)"

definition py_int :: "nat \<Rightarrow> string \<Rightarrow> int option" where
  "py_int b s =
     (let (neg, t) = split_sign (py_strip s);
          u = (if b = 16 then strip_prefix16 t else t)
      in case literal_digits b u of
           None \<Rightarrow> None
         | Some n \<Rightarrow> Some (if neg then - int n else int n))"

text \<open>
  A Python float is represented by the real number it denotes, by an infinity or by
  NaN; rounding to the nearest double and overflow are not modelled. Comparisons with
  NaN are false.
\<close>

datatype pyfloat = Fin real | PosInf | NegInf | NaN

fun float_less :: "pyfloat \<Rightarrow> pyfloat \<Rightarrow> bool" where
  "float_less (Fin a) (Fin b) = (a < b)"
| "float_less (Fin a) PosInf = True"
| "float_less NegInf (Fin b) = True"
| "float_less NegInf PosInf = True"
| "float_less _ _ = False"

definition is_digit :: "char \<Rightarrow> bool" where
  "is_digit c \<longleftrightarrow> (case digit_value c of Some d \<Rightarrow> d < 10 | None \<Rightarrow> False)"

definition lower_char :: "char \<Rightarrow> char" where
  "lower_char c =
     (let n = (of_char c :: nat) in if 65 \<le> n \<and> n \<le> 90 then char_of (n + 32) else c)"

text \<open>
  \<^verbatim>\<open>float(s)\<close>. Underscores are checked and removed first (only between digits), then
  the text is a sign followed by \<^verbatim>\<open>inf\<close>, \<^verbatim>\<open>infinity\<close>, \<^verbatim>\<open>nan\<close> (in any case) or by a
  decimal numeral with an optional fraction and an optional exponent.
\<close>

fun strip_underscores :: "char \<Rightarrow> string \<Rightarrow> string option" where
  "strip_underscores prev [] = (if prev = CHR ''_'' then None else Some [])"
| "strip_underscores prev (c # cs) =
     (if c = CHR ''_'' then
        (if is_digit prev then strip_underscores c cs else None)
      else if prev = CHR ''_'' \<and> \<not> is_digit c then None
      else map_option ((#) c) (strip_underscores c cs))"

definition digits_nat :: "string \<Rightarrow> nat" where
  "digits_nat ds = foldl (\<lambda>acc c. acc * 10 + (case digit_value c of None \<Rightarrow> 0 | Some d \<Rightarrow> d)) 0 ds"

definition parse_exponent :: "string \<Rightarrow> int option" where
  "parse_exponent s =
     (case s of
        [] \<Rightarrow> Some 0
      | c # cs \<Rightarrow>
          if c = CHR ''e'' \<or> c = CHR ''E'' then
            (let (neg, ds) = split_sign cs in
             if ds \<noteq> [] \<and> list_all is_digit ds
             then Some (if neg then - int (digits_nat ds) else int (digits_nat ds))
             else None)
          else None)"

definition pow10 :: "int \<Rightarrow> real" where
  "pow10 e = (if 0 \<le> e then 10 ^ nat e else 1 / 10 ^ nat (- e))"

definition parse_decimal :: "string \<Rightarrow> real option" where
  "parse_decimal s =
     (let ip = takeWhile is_digit s;
          r1 = dropWhile is_digit s;
          (fp, r2) = (case r1 of
                        c # cs \<Rightarrow> if c = CHR ''.'' then (takeWhile is_digit cs, dropWhile is_digit cs)
                                  else ([], r1)
                      | [] \<Rightarrow> ([], []))
      in if ip = [] \<and> fp = [] then None
         else case parse_exponent r2 of
                None \<Rightarrow> None
              | Some e \<Rightarrow> Some (real (digits_nat (ip @ fp)) * pow10 (e - int (length fp))))"

definition py_float :: "string \<Rightarrow> pyfloat option" where
  "py_float s =
     (case strip_underscores CHR 0x00 (py_strip s) of
        None \<Rightarrow> None
      | Some t \<Rightarrow>
          (let (neg, u) = split_sign t; l = map lower_char u in
           if l = ''inf'' \<or> l = ''infinity'' then Some (if neg then NegInf else PosInf)
           else if l = ''nan'' then Some NaN
           else case parse_decimal u of
                  None \<Rightarrow> None
                | Some r \<Rightarrow> Some (Fin (if neg then - r else r))))"

text \<open>\<^verbatim>\<open>str(n)\<close> for an integer: the decimal digits, after a minus sign below zero.\<close>

function str_digits :: "int \<Rightarrow> string" where
  "str_digits n =
     (if n < 10 then [char_of (48 + n)]
      else str_digits (n div 10) @ [char_of (48 + n mod 10)])"
  by pat_completeness auto
termination
  by (relation "measure nat") auto

definition py_str :: "int \<Rightarrow> string" where
  "py_str i = (if i < 0 then CHR ''-'' # str_digits (- i) else str_digits i)"

declare str_digits.simps [simp del]

section \<open>Configuration store\<close>

text \<open>
  A value read by \<^verbatim>\<open>json.load\<close>. A Python \<^verbatim>\<open>dict\<close> with text keys is an association list
  in insertion order: \<open>dict_get\<close> is \<^verbatim>\<open>d.get(k)\<close>, \<open>dict_set\<close> is \<^verbatim>\<open>d[k] = v\<close>.
\<close>

datatype json =
    JNull
  | JBool bool
  | JInt int
  | JFloat pyfloat
  | JStr string
  | JArr "json list"
  | JObj "(string \<times> json) list"

type_synonym dict = "(string \<times> json) list"

definition dict_get :: "dict \<Rightarrow> string \<Rightarrow> json option" where
  "dict_get d k = map_of d k"

definition dict_get_default :: "dict \<Rightarrow> string \<Rightarrow> json \<Rightarrow> json" where
  "dict_get_default d k dflt = (case map_of d k of Some v \<Rightarrow> v | None \<Rightarrow> dflt)"

fun dict_set :: "dict \<Rightarrow> string \<Rightarrow> json \<Rightarrow> dict" where
  "dict_set [] k v = [(k, v)]"
| "dict_set ((k', v') # d) k v =
     (if k' = k then (k, v) # d else (k', v') # dict_set d k v)"

definition DEFAULT_CONFIG :: dict where
  "DEFAULT_CONFIG =
     [(''vendor_id'', JStr ''0x0fe6''),
      (''product_id'', JStr ''0x811e''),
      (''interface'', JInt 0),
      (''auto_max_count'', JInt 10),
      (''auto_interval'', JFloat (Fin 1))]"

text \<open>
  \<^verbatim>\<open>key not in config\<close> and \<^verbatim>\<open>config[key] = value\<close> on whatever \<^verbatim>\<open>json.load\<close> returned;
  \<open>None\<close> is the \<^verbatim>\<open>TypeError\<close> Python raises on a value that is no container or that
  takes no item assignment by a text key.
\<close>

fun py_not_in :: "string \<Rightarrow> json \<Rightarrow> bool option" where
  "py_not_in k (JObj d) = Some (map_of d k = None)"
| "py_not_in k (JArr xs) = Some (JStr k \<notin> set xs)"
| "py_not_in k (JStr t) = Some (\<not> contains t k)"
| "py_not_in k _ = None"

fun py_setitem :: "json \<Rightarrow> string \<Rightarrow> json \<Rightarrow> json option" where
  "py_setitem (JObj d) k v = Some (JObj (dict_set d k v))"
| "py_setitem _ k v = None"

text \<open>The loop \<^verbatim>\<open>for key in DEFAULT_CONFIG: if key not in config: config[key] = ...\<close>.\<close>

fun merge_defaults :: "json \<Rightarrow> dict \<Rightarrow> json option" where
  "merge_defaults config [] = Some config"
| "merge_defaults config ((key, dflt) # rest) =
     (case py_not_in key config of
        None \<Rightarrow> None
      | Some False \<Rightarrow> merge_defaults config rest
      | Some True \<Rightarrow>
          (case py_setitem config key dflt of
             None \<Rightarrow> None
           | Some config' \<Rightarrow> merge_defaults config' rest))"

text \<open>
  The configuration file: absent, present with a content that \<^verbatim>\<open>open\<close> or \<^verbatim>\<open>json.load\<close>
  rejects, or present with the value \<^verbatim>\<open>json.load\<close> returns for it.
\<close>

datatype cfg_file = Missing | Unparsable | Parsed json

definition load_config :: "cfg_file \<Rightarrow> json" where
  "load_config f =
     (case f of
        Missing \<Rightarrow> JObj DEFAULT_CONFIG
      | Unparsable \<Rightarrow> JObj DEFAULT_CONFIG
      | Parsed config \<Rightarrow>
          (case merge_defaults config DEFAULT_CONFIG of
             Some config' \<Rightarrow> config'
           | None \<Rightarrow> JObj DEFAULT_CONFIG))"

text \<open>
  What a call outside the program did: it returned, or it raised an exception with a
  message. \<open>save_config\<close> takes the outcome of \<^verbatim>\<open>open(CONFIG_FILE, 'w')\<close> and of
  \<^verbatim>\<open>json.dump\<close>: a failed \<^verbatim>\<open>open\<close> leaves the file as it was, a failed \<^verbatim>\<open>json.dump\<close>
  leaves the truncated file behind.
\<close>

datatype outcome = Ok | Raises string

definition save_config :: "outcome \<Rightarrow> outcome \<Rightarrow> dict \<Rightarrow> cfg_file \<Rightarrow> bool \<times> cfg_file" where
  "save_config opened dumped config f =
     (case opened of
        Raises _ \<Rightarrow> (False, f)
      | Ok \<Rightarrow>
          (case dumped of
             Raises _ \<Rightarrow> (False, Unparsable)
           | Ok \<Rightarrow> (True, Parsed (JObj config))))"

text \<open>
  The accessors of the device identifiers. \<^verbatim>\<open>int(vid, 16) if isinstance(vid, str) else vid\<close>
  under a bare \<^verbatim>\<open>except\<close>: the result is a Python value, an integer where the stored
  value is text that parses.
\<close>

definition get_vendor_id :: "dict \<Rightarrow> json" where
  "get_vendor_id config =
     (case dict_get_default config ''vendor_id'' (JStr ''0x0fe6'') of
        JStr vid \<Rightarrow> (case py_int 16 vid of Some n \<Rightarrow> JInt n | None \<Rightarrow> JInt 0x0fe6)
      | vid \<Rightarrow> vid)"

definition get_product_id :: "dict \<Rightarrow> json" where
  "get_product_id config =
     (case dict_get_default config ''product_id'' (JStr ''0x811e'') of
        JStr pid \<Rightarrow> (case py_int 16 pid of Some n \<Rightarrow> JInt n | None \<Rightarrow> JInt 0x811e)
      | pid \<Rightarrow> pid)"

definition get_interface :: "dict \<Rightarrow> json" where
  "get_interface config = dict_get_default config ''interface'' (JInt 0)"

definition is_int :: "json \<Rightarrow> bool" where
  "is_int v \<longleftrightarrow> (case v of JInt _ \<Rightarrow> True | JBool _ \<Rightarrow> True | _ \<Rightarrow> False)"

section \<open>The application state\<close>

text \<open>
  The commands the receipt code sends to the printer object of \<^verbatim>\<open>escpos\<close>
  (\<^verbatim>\<open>p.set\<close> with its \<^verbatim>\<open>align\<close>, \<^verbatim>\<open>width\<close> and \<^verbatim>\<open>height\<close> arguments, \<^verbatim>\<open>p._raw\<close>, \<^verbatim>\<open>p.text\<close>,
  \<^verbatim>\<open>p.cut\<close>), and the calls that leave the program: the constructor \<^verbatim>\<open>Usb(...)\<close>, a
  command to a handle, \<^verbatim>\<open>close\<close>, and the two steps of writing the configuration file.
  A handle is the number the constructor returned.
\<close>

datatype pcmd =
    PSet "string option" "nat option" "nat option"
  | PRaw string
  | PText string
  | PCut

datatype io_call =
    UsbNew nat json json json
  | PrinterCmd nat pcmd
  | PrinterClose nat
  | OpenConfigFile
  | DumpConfig dict

text \<open>
  A callback handed to \<^verbatim>\<open>self.after(0, ...)\<close>: it waits in the queue of the control
  thread until the main loop runs it. The main loop runs the callbacks in the order in
  which they were handed over.
\<close>

datatype event =
    SetCounter int int
  | PrintAndReset
  | AutoCleanup
  | Popup string string string
  | DeviceStatus bool
  | PrintCount
  | TestPrint

text \<open>
  One thread running \<^verbatim>\<open>_auto_worker\<close>: where it stands in the function body and its
  local variables \<^verbatim>\<open>i\<close>, \<^verbatim>\<open>max_count\<close>, \<^verbatim>\<open>interval\<close>.
\<close>

datatype pc =
    Start
  | LoopTest
  | Body
  | Sleep
  | Guard
  | Handler string
  | Finally
  | Cleanup
  | Done

record worker =
  w_pc :: pc
  w_i :: int
  w_max_count :: int
  w_interval :: pyfloat

text \<open>
  The attributes of \<^verbatim>\<open>PrinterApp\<close> that the operations read and write, and what surrounds
  them: the configuration file, the notices shown by \<^verbatim>\<open>_make_popup\<close> (title, message,
  type), the queue of pending callbacks and the callbacks already run, the worker
  threads started so far, the outcomes of the coming outside calls (a call finding the
  list empty succeeds), the outside calls made so far, the next handle, and the
  clock (the formatted time and the seconds since the epoch). Widgets are not part of
  the state: a call that only reconfigures a widget changes nothing here.
\<close>

record sys =
  counter :: int
  printer :: "nat option"
  auto_running :: bool
  stopped_by_user :: bool
  print_lock :: bool
  print_scheduled :: bool
  device_connected :: bool
  auto_max_count :: int
  auto_interval :: pyfloat
  config :: dict
  config_file :: cfg_file
  popups :: "(string \<times> string \<times> string) list"
  queue :: "event list"
  dispatched :: "event list"
  workers :: "worker list"
  outcomes :: "outcome list"
  io_log :: "(io_call \<times> outcome) list"
  next_handle :: nat
  clock :: "string \<times> int"

definition ext_call :: "io_call \<Rightarrow> sys \<Rightarrow> outcome \<times> sys" where
  "ext_call c s =
     (case outcomes s of
        [] \<Rightarrow> (Ok, s\<lparr>io_log := io_log s @ [(c, Ok)]\<rparr>)
      | r # rs \<Rightarrow> (r, s\<lparr>outcomes := rs, io_log := io_log s @ [(c, r)]\<rparr>))"

definition make_popup :: "string \<Rightarrow> string \<Rightarrow> string \<Rightarrow> sys \<Rightarrow> sys" where
  "make_popup title message popup_type s =
     s\<lparr>popups := popups s @ [(title, message, popup_type)]\<rparr>"

definition after :: "event \<Rightarrow> sys \<Rightarrow> sys" where
  "after e s = s\<lparr>queue := queue s @ [e]\<rparr>"

text \<open>
  \<^verbatim>\<open>PrinterApp.__init__\<close> on the value \<open>load_config\<close> returned at import. A value that is
  no \<^verbatim>\<open>dict\<close> stops the start-up with an \<^verbatim>\<open>AttributeError\<close> (\<open>None\<close>). The two auto-mode
  attributes are typed here; before the first run they are only shown in the entry
  fields, so a stored value of another type is replaced by the default.
\<close>

definition PrinterApp_init :: "cfg_file \<Rightarrow> outcome list \<Rightarrow> string \<times> int \<Rightarrow> sys option" where
  "PrinterApp_init f orc clk =
     (case load_config f of
        JObj d \<Rightarrow>
          Some \<lparr>counter = 0, printer = None, auto_running = False, stopped_by_user = False,
                print_lock = False, print_scheduled = False, device_connected = False,
                auto_max_count = (case dict_get_default d ''auto_max_count'' (JInt 10) of
                                    JInt n \<Rightarrow> n | _ \<Rightarrow> 10),
                auto_interval = (case dict_get_default d ''auto_interval'' (JFloat (Fin 1)) of
                                   JFloat x \<Rightarrow> x | JInt n \<Rightarrow> Fin (real_of_int n) | _ \<Rightarrow> Fin 1),
                config = d, config_file = f, popups = [], queue = [], dispatched = [],
                workers = [], outcomes = orc, io_log = [], next_handle = 0, clock = clk\<rparr>
      | _ \<Rightarrow> None)"

subsection \<open>Device status and connection\<close>

definition set_device_status :: "bool \<Rightarrow> sys \<Rightarrow> sys" where
  "set_device_status conn s =
     (let s1 = s\<lparr>device_connected := conn\<rparr> in
      if conn then s1
      else case printer s1 of
             None \<Rightarrow> s1
           | Some h \<Rightarrow> (snd (ext_call (PrinterClose h) s1))\<lparr>printer := None\<rparr>)"

definition connect_printer :: "sys \<Rightarrow> bool \<times> sys" where
  "connect_printer s =
     (case printer s of
        Some _ \<Rightarrow> (True, s)
      | None \<Rightarrow>
          (case ext_call (UsbNew (next_handle s) (get_vendor_id (config s))
                            (get_product_id (config s)) (get_interface (config s))) s of
             (Ok, s1) \<Rightarrow>
               (True, set_device_status True
                        (s1\<lparr>printer := Some (next_handle s1),
                            next_handle := Suc (next_handle s1)\<rparr>))
           | (Raises err_msg, s1) \<Rightarrow>
               (False, (after (Popup ''Connection Error''
                                (''Gagal terhubung ke printer:'' @ [CHR 0x0A] @ err_msg)
                                ''error'') s1)\<lparr>printer := None\<rparr>)))"

subsection \<open>Print jobs\<close>

text \<open>
  A block of statements that may raise: it returns \<open>None\<close> when it ran to its end and
  \<open>Some msg\<close> when an exception with message \<open>msg\<close> left it. \<open>seq\<close> is sequencing,
  \<open>try_except a h\<close> is \<^verbatim>\<open>try: a except Exception: h\<close>. \<open>cmd p c\<close> is the method call \<open>c\<close> on
  the value \<open>p\<close> of \<^verbatim>\<open>self.printer\<close>: on a handle it is an outside call, on \<^verbatim>\<open>None\<close> it raises
  an \<^verbatim>\<open>AttributeError\<close>.
\<close>

type_synonym job = "sys \<Rightarrow> string option \<times> sys"

definition pass :: job where
  "pass s = (None, s)"

definition seq :: "job \<Rightarrow> job \<Rightarrow> job" where
  "seq a b s = (case a s of (None, s') \<Rightarrow> b s' | (Some msg, s') \<Rightarrow> (Some msg, s'))"

definition try_except :: "job \<Rightarrow> job \<Rightarrow> job" where
  "try_except a h s = (case a s of (None, s') \<Rightarrow> (None, s') | (Some msg, s') \<Rightarrow> h s')"

fun seqs :: "job list \<Rightarrow> job" where
  "seqs [] = pass"
| "seqs (a # as) = seq a (seqs as)"

definition cmd :: "nat option \<Rightarrow> pcmd \<Rightarrow> job" where
  "cmd p c s =
     (case p of
        None \<Rightarrow> (Some ''AttributeError'', s)
      | Some h \<Rightarrow>
          (case ext_call (PrinterCmd h c) s of
             (Ok, s') \<Rightarrow> (None, s')
           | (Raises msg, s') \<Rightarrow> (Some msg, s')))"

definition popup_job :: "string \<Rightarrow> string \<Rightarrow> string \<Rightarrow> job" where
  "popup_job title message popup_type s = (None, make_popup title message popup_type s)"

definition bold_on :: pcmd where
  "bold_on = PRaw [CHR 0x1B, CHR 0x45, CHR 0x01]"

definition bold_off :: pcmd where
  "bold_off = PRaw [CHR 0x1B, CHR 0x45, CHR 0x00]"

definition nl :: string where
  "nl = [CHR 0x0A]"

definition set_large :: "nat option \<Rightarrow> job" where
  "set_large p =
     try_except (cmd p (PSet (Some ''center'') (Some 2) (Some 2)))
       (try_except (cmd p (PSet (Some ''center'') None None)) pass)"

definition bold_text :: "nat option \<Rightarrow> string \<Rightarrow> job" where
  "bold_text p t =
     try_except (seqs [cmd p bold_on, cmd p (PText t), cmd p bold_off]) (cmd p (PText t))"

definition cut_paper :: "nat option \<Rightarrow> job" where
  "cut_paper p = try_except (cmd p PCut) pass"

text \<open>The statements of \<open>print_count\<close> after the connection, with \<^verbatim>\<open>p = self.printer\<close>.\<close>

definition count_receipt :: "sys \<Rightarrow> job" where
  "count_receipt s =
     (let p = printer s; ts = fst (clock s); order_id = snd (clock s) in
      seqs
        [set_large p,
         bold_text p (''LAPORAN HITUNGAN'' @ nl),
         try_except (cmd p (PSet None (Some 1) (Some 1))) pass,
         cmd p (PText (''-------------------------'' @ nl @ nl)),
         cmd p (PSet (Some ''left'') None None),
         cmd p (PText (''Tanggal : '' @ ts @ nl)),
         cmd p (PText (''Nomor   : #'' @ py_str order_id @ nl)),
         cmd p (PText (''-------------------------'' @ nl)),
         bold_text p (''Hasil Hitungan : '' @ py_str (counter s) @ nl),
         cmd p (PText (''-------------------------'' @ nl @ nl)),
         cmd p (PSet (Some ''center'') None None),
         cmd p (PText (''Terima kasih!'' @ nl)),
         cmd p (PText (''Dicetak oleh PrinterPro'' @ nl @ nl)),
         cut_paper p,
         popup_job ''Success'' ''Struk berhasil dicetak.'' ''success''])"

definition test_receipt :: "sys \<Rightarrow> job" where
  "test_receipt s =
     (let p = printer s; ts = fst (clock s) in
      seqs
        [set_large p,
         bold_text p (''TEST PRINT'' @ nl),
         cmd p (PText (''---------------------'' @ nl @ nl)),
         cmd p (PSet (Some ''left'') None None),
         cmd p (PText (''Waktu : '' @ ts @ nl)),
         cmd p (PText (''Printer: BT-58D'' @ nl)),
         cmd p (PText (''Status : OK'' @ nl @ nl)),
         cmd p (PSet (Some ''center'') None None),
         cmd p bold_on,
         cmd p (PText (''Test berhasil!'' @ nl)),
         cmd p bold_off,
         cmd p (PText nl),
         cut_paper p,
         popup_job ''Success'' ''Test print berhasil.'' ''success''])"

text \<open>
  The frame both print functions share: the non-blocking \<^verbatim>\<open>acquire\<close>, the \<^verbatim>\<open>try\<close> whose
  body returns early when the connection fails, the \<^verbatim>\<open>except\<close> that reports, the
  \<^verbatim>\<open>finally\<close> that releases.
\<close>

definition busy_notice :: "string \<times> string \<times> string" where
  "busy_notice = (''Info'', ''Proses cetak sedang berjalan. Mohon tunggu.'', ''info'')"

definition print_job :: "(sys \<Rightarrow> job) \<Rightarrow> sys \<Rightarrow> sys" where
  "print_job receipt s =
     (if print_lock s then s\<lparr>popups := popups s @ [busy_notice]\<rparr>
      else
        let s0 = s\<lparr>print_lock := True\<rparr>;
            (raised, s2) =
              (case connect_printer s0 of
                 (False, s1) \<Rightarrow> (None, s1)
               | (True, s1) \<Rightarrow> receipt s1 s1);
            s3 = (case raised of
                    None \<Rightarrow> s2
                  | Some err_msg \<Rightarrow>
                      make_popup ''Print Error'' (''Gagal mencetak:'' @ nl @ err_msg) ''error'' s2)
        in s3\<lparr>print_lock := False\<rparr>)"

definition print_count :: "sys \<Rightarrow> sys" where
  "print_count = print_job count_receipt"

definition test_print :: "sys \<Rightarrow> sys" where
  "test_print = print_job test_receipt"

text \<open>
  \<open>_safe_print_call\<close> and \<open>_safe_test_print_call\<close>; the argument says whether the caller
  runs on the main thread.
\<close>

definition safe_print_call :: "bool \<Rightarrow> sys \<Rightarrow> sys" where
  "safe_print_call on_main s = (if on_main then print_count s else after PrintCount s)"

definition safe_test_print_call :: "bool \<Rightarrow> sys \<Rightarrow> sys" where
  "safe_test_print_call on_main s = (if on_main then test_print s else after TestPrint s)"

subsection \<open>Counter and auto mode\<close>

definition reset_counter :: "sys \<Rightarrow> sys" where
  "reset_counter s = s\<lparr>counter := 0\<rparr>"

definition manual_add :: "sys \<Rightarrow> sys" where
  "manual_add s = s\<lparr>counter := counter s + 1\<rparr>"

definition new_worker :: worker where
  "new_worker = \<lparr>w_pc = Start, w_i = 0, w_max_count = 0, w_interval = Fin 0\<rparr>"

text \<open>
  \<open>_toggle_auto\<close>. The arguments are the texts of the two entry fields, \<open>None\<close> where
  the attribute does not exist (\<^verbatim>\<open>AttributeError\<close>). \<^verbatim>\<open>threading.Thread(...).start()\<close>
  adds a worker standing at the first statement of \<open>_auto_worker\<close>.
\<close>

definition read_max_count :: "string option \<Rightarrow> int" where
  "read_max_count entry =
     (case entry of
        None \<Rightarrow> 10
      | Some t \<Rightarrow>
          (case py_int 10 t of
             None \<Rightarrow> 10
           | Some max_count \<Rightarrow> if max_count < 1 then 1 else max_count))"

definition read_interval :: "string option \<Rightarrow> pyfloat" where
  "read_interval entry =
     (case entry of
        None \<Rightarrow> Fin 1
      | Some t \<Rightarrow>
          (case py_float t of
             None \<Rightarrow> Fin 1
           | Some interval \<Rightarrow>
               if float_less interval (Fin (1 / 10)) then Fin (1 / 10) else interval))"

definition toggle_auto :: "string option \<Rightarrow> string option \<Rightarrow> sys \<Rightarrow> sys" where
  "toggle_auto max_count_entry interval_entry s =
     (if \<not> auto_running s then
        s\<lparr>auto_max_count := read_max_count max_count_entry,
          auto_interval := read_interval interval_entry,
          auto_running := True,
          counter := 0,
          stopped_by_user := False,
          print_scheduled := False,
          workers := workers s @ [new_worker]\<rparr>
      else
        s\<lparr>stopped_by_user := True, auto_running := False\<rparr>)"

text \<open>
  \<^verbatim>\<open>time.sleep(interval)\<close>: it returns (\<open>None\<close>) for a finite length from 0 up to what the
  64-bit nanosecond clock holds, and raises otherwise.
\<close>

definition time_sleep :: "pyfloat \<Rightarrow> string option" where
  "time_sleep x =
     (case x of
        Fin r \<Rightarrow>
          if r < 0 then Some ''sleep length must be non-negative''
          else if r \<le> 9223372036 then None
          else Some ''timestamp too large to convert to C PyTime_t''
      | NaN \<Rightarrow> Some ''Invalid value NaN (not a number)''
      | _ \<Rightarrow> Some ''timestamp too large to convert to C PyTime_t'')"

text \<open>
  One step of the thread \<open>k\<close> in \<open>_auto_worker\<close>. \<open>Start\<close> is the three assignments before
  the loop, \<open>LoopTest\<close> the condition of the \<^verbatim>\<open>while\<close>, \<open>Body\<close> the increment and the
  publication, \<open>Sleep\<close> the call of \<^verbatim>\<open>time.sleep\<close>, \<open>Guard\<close> the block under \<^verbatim>\<open>_ui_lock\<close>,
  \<open>Handler\<close> the \<^verbatim>\<open>except\<close> clause, \<open>Finally\<close> and \<open>Cleanup\<close> the two statements of the
  \<^verbatim>\<open>finally\<close> clause.
\<close>

definition put_worker :: "nat \<Rightarrow> worker \<Rightarrow> sys \<Rightarrow> sys" where
  "put_worker k w s = s\<lparr>workers := (workers s)[k := w]\<rparr>"

definition worker_step :: "nat \<Rightarrow> sys \<Rightarrow> sys" where
  "worker_step k s =
     (if k < length (workers s) then
        let w = workers s ! k in
        case w_pc w of
          Start \<Rightarrow>
            put_worker k (w\<lparr>w_i := 0, w_max_count := auto_max_count s,
                           w_interval := auto_interval s, w_pc := LoopTest\<rparr>) s
        | LoopTest \<Rightarrow>
            put_worker k
              (w\<lparr>w_pc := (if auto_running s \<and> w_i w < w_max_count w then Body else Guard)\<rparr>) s
        | Body \<Rightarrow>
            after (SetCounter (w_i w + 1) (w_max_count w))
              (put_worker k (w\<lparr>w_i := w_i w + 1, w_pc := Sleep\<rparr>) s)
        | Sleep \<Rightarrow>
            put_worker k
              (w\<lparr>w_pc := (case time_sleep (w_interval w) of
                             None \<Rightarrow> LoopTest
                           | Some err_msg \<Rightarrow> Handler err_msg)\<rparr>) s
        | Guard \<Rightarrow>
            (if \<not> print_scheduled s then
               after PrintAndReset ((put_worker k (w\<lparr>w_pc := Finally\<rparr>) s)\<lparr>print_scheduled := True\<rparr>)
             else put_worker k (w\<lparr>w_pc := Finally\<rparr>) s)
        | Handler err_msg \<Rightarrow>
            after (Popup ''Auto Error''
                     (''Terjadi error pada proses otomatis:'' @ nl @ err_msg) ''error'')
              (put_worker k (w\<lparr>w_pc := Finally\<rparr>) s)
        | Finally \<Rightarrow> (put_worker k (w\<lparr>w_pc := Cleanup\<rparr>) s)\<lparr>auto_running := False\<rparr>
        | Cleanup \<Rightarrow> after AutoCleanup (put_worker k (w\<lparr>w_pc := Done\<rparr>) s)
        | Done \<Rightarrow> s
      else s)"

definition print_and_reset :: "sys \<Rightarrow> sys" where
  "print_and_reset s = (safe_print_call True s)\<lparr>counter := 0\<rparr>"

definition set_counter_from_thread :: "int \<Rightarrow> int \<Rightarrow> sys \<Rightarrow> sys" where
  "set_counter_from_thread v max_count s = s\<lparr>counter := v\<rparr>"

definition auto_cleanup_ui :: "sys \<Rightarrow> sys" where
  "auto_cleanup_ui s = s"

subsection \<open>Saving the settings\<close>

text \<open>
  \<open>save_settings\<close> of the settings window, on the texts of its three entry fields.
  \<open>with_prefix\<close> is the \<^verbatim>\<open>"0x" + new_vid\<close> added when the text does not start with it.
\<close>

definition with_prefix :: "string \<Rightarrow> string" where
  "with_prefix t = (if \<not> startswith t ''0x'' then ''0x'' @ t else t)"

definition invalid_vendor :: "string \<times> string \<times> string" where
  "invalid_vendor =
     (''Invalid Input'', ''Vendor ID harus dalam format hex (contoh: 0x0fe6)'', ''error'')"

definition invalid_product :: "string \<times> string \<times> string" where
  "invalid_product =
     (''Invalid Input'', ''Product ID harus dalam format hex (contoh: 0x811e)'', ''error'')"

definition invalid_interface :: "string \<times> string \<times> string" where
  "invalid_interface =
     (''Invalid Input'', ''Interface harus berupa angka (contoh: 0)'', ''error'')"

definition save_config_file :: "sys \<Rightarrow> bool \<times> sys" where
  "save_config_file s =
     (case ext_call OpenConfigFile s of
        (Raises err, s1) \<Rightarrow>
          (let (ok, f) = save_config (Raises err) Ok (config s1) (config_file s1)
           in (ok, s1\<lparr>config_file := f\<rparr>))
      | (Ok, s1) \<Rightarrow>
          (case ext_call (DumpConfig (config s1)) s1 of
             (dumped, s2) \<Rightarrow>
               (let (ok, f) = save_config Ok dumped (config s2) (config_file s2)
                in (ok, s2\<lparr>config_file := f\<rparr>))))"

definition save_settings :: "string \<Rightarrow> string \<Rightarrow> string \<Rightarrow> sys \<Rightarrow> sys" where
  "save_settings vid_entry pid_entry iface_entry s =
     (let new_vid = with_prefix (py_strip vid_entry);
          new_pid = with_prefix (py_strip pid_entry)
      in
      case py_int 16 new_vid of
        None \<Rightarrow> s\<lparr>popups := popups s @ [invalid_vendor]\<rparr>
      | Some _ \<Rightarrow>
      (case py_int 16 new_pid of
        None \<Rightarrow> s\<lparr>popups := popups s @ [invalid_product]\<rparr>
      | Some _ \<Rightarrow>
      (case py_int 10 (py_strip iface_entry) of
        None \<Rightarrow> s\<lparr>popups := popups s @ [invalid_interface]\<rparr>
      | Some new_iface \<Rightarrow>
          (let s1 = s\<lparr>config := dict_set (dict_set (dict_set (config s)
                                   ''vendor_id'' (JStr new_vid))
                                   ''product_id'' (JStr new_pid))
                                   ''interface'' (JInt new_iface)\<rparr>;
               s2 = (case printer s1 of
                       None \<Rightarrow> s1
                     | Some h \<Rightarrow> (snd (ext_call (PrinterClose h) s1))\<lparr>printer := None\<rparr>)
           in case save_config_file s2 of
                (True, s3) \<Rightarrow>
                  make_popup ''Success'' ''Konfigurasi berhasil disimpan.'' ''success'' s3
              | (False, s3) \<Rightarrow>
                  make_popup ''Error'' ''Gagal menyimpan konfigurasi.'' ''error'' s3))))"

section \<open>Threads and the main loop\<close>

text \<open>
  What the main loop does with a callback taken from the queue, and what it does on a
  click: \<open>ManualAdd\<close>, \<open>ResetCounter\<close>, \<open>ToggleAuto\<close> (with the texts of the entry fields),
  \<open>PrintNow\<close> and \<open>TestNow\<close> (the two print buttons), \<open>SaveSettings\<close>.
\<close>

fun run_event :: "event \<Rightarrow> sys \<Rightarrow> sys" where
  "run_event (SetCounter v m) s = set_counter_from_thread v m s"
| "run_event PrintAndReset s = print_and_reset s"
| "run_event AutoCleanup s = auto_cleanup_ui s"
| "run_event (Popup title message popup_type) s = make_popup title message popup_type s"
| "run_event (DeviceStatus conn) s = set_device_status conn s"
| "run_event PrintCount s = print_count s"
| "run_event TestPrint s = test_print s"

datatype click =
    ManualAdd
  | ResetCounter
  | ToggleAuto "string option" "string option"
  | PrintNow
  | TestNow
  | SaveSettings string string string

fun run_click :: "click \<Rightarrow> sys \<Rightarrow> sys" where
  "run_click ManualAdd s = manual_add s"
| "run_click ResetCounter s = reset_counter s"
| "run_click (ToggleAuto m i) s = toggle_auto m i s"
| "run_click PrintNow s = safe_print_call True s"
| "run_click TestNow s = safe_test_print_call True s"
| "run_click (SaveSettings v p i) s = save_settings v p i s"

definition dispatch :: "sys \<Rightarrow> sys" where
  "dispatch s =
     (case queue s of
        [] \<Rightarrow> s
      | e # q \<Rightarrow> run_event e (s\<lparr>queue := q, dispatched := dispatched s @ [e]\<rparr>))"

text \<open>
  A schedule is the order in which things happen: a worker thread runs its next
  statement, the main loop runs the next pending callback, the presence probe hands
  over its result, or the user clicks. Each callback of the control thread is one step;
  the statements of the workers interleave between them.
\<close>

datatype action = Worker nat | Dispatch | Probe bool | Click click

fun step :: "action \<Rightarrow> sys \<Rightarrow> sys" where
  "step (Worker k) s = worker_step k s"
| "step Dispatch s = dispatch s"
| "step (Probe conn) s = after (DeviceStatus conn) s"
| "step (Click c) s = run_click c s"

fun exec :: "action list \<Rightarrow> sys \<Rightarrow> sys" where
  "exec [] s = s"
| "exec (a # as) s = exec as (step a s)"

section \<open>Notions the properties are stated with\<close>

text \<open>
  The calls made since the most recent \<open>ResetCounter\<close> (all of them when there is none),
  and the number of \<open>ManualAdd\<close> among them.
\<close>

definition since_last_reset :: "click list \<Rightarrow> click list" where
  "since_last_reset cs = rev (takeWhile (\<lambda>c. c \<noteq> ResetCounter) (rev cs))"

definition adds_since_reset :: "click list \<Rightarrow> nat" where
  "adds_since_reset cs = length (filter (\<lambda>c. c = ManualAdd) (since_last_reset cs))"

text \<open>
  The checks of \<open>save_settings\<close> on the text of an entry field: an identifier is accepted
  when \<^verbatim>\<open>int(text, 16)\<close> accepts the stripped text, prefixed with \<^verbatim>\<open>0x\<close> when it does not
  start with it; the interface when \<^verbatim>\<open>int(text)\<close> accepts the stripped text.
\<close>

definition hex_text_ok :: "string \<Rightarrow> bool" where
  "hex_text_ok t \<longleftrightarrow> py_int 16 (with_prefix (py_strip t)) \<noteq> None"

definition int_text_ok :: "string \<Rightarrow> bool" where
  "int_text_ok t \<longleftrightarrow> py_int 10 (py_strip t) \<noteq> None"

text \<open>
  The state the application starts in when there is no configuration file, with the
  given outcomes of the coming outside calls, at a fixed time of day.
\<close>

definition fresh :: "outcome list \<Rightarrow> sys" where
  "fresh orc =
     \<lparr>counter = 0, printer = None, auto_running = False, stopped_by_user = False,
      print_lock = False, print_scheduled = False, device_connected = False,
      auto_max_count = 10, auto_interval = Fin 1,
      config = DEFAULT_CONFIG, config_file = Missing, popups = [], queue = [],
      dispatched = [], workers = [], outcomes = orc, io_log = [], next_handle = 0,
      clock = (''04-11-2026 09:30:00'', 1793784600)\<rparr>"

text \<open>
  The handles that are open after a list of outside calls: a handle is opened by a
  constructor call that returned and closed by a \<^verbatim>\<open>close\<close> on it, whether \<^verbatim>\<open>close\<close> returned
  or raised. \<open>handles_ok\<close> says that the open handles are exactly the one the
  application holds, if it holds one, and that this one was issued before.
\<close>

definition track :: "nat set \<Rightarrow> io_call \<times> outcome \<Rightarrow> nat set" where
  "track H e =
     (case e of
        (UsbNew h _ _ _, Ok) \<Rightarrow> insert h H
      | (PrinterClose h, _) \<Rightarrow> H - {h}
      | _ \<Rightarrow> H)"

definition open_handles :: "(io_call \<times> outcome) list \<Rightarrow> nat set" where
  "open_handles calls = foldl track {} calls"

definition handles_ok :: "sys \<Rightarrow> bool" where
  "handles_ok s \<longleftrightarrow>
     open_handles (io_log s) = set_option (printer s) \<and>
     (\<forall>h. printer s = Some h \<longrightarrow> h < next_handle s)"

text \<open>
  What a block of printer statements may change: \<open>job_frame p s s'\<close> says that \<open>s'\<close> is \<open>s\<close>
  with notices added, outcomes consumed and outside calls added that are all commands to
  the handle \<open>p\<close>. \<open>framed p j\<close> says that the block \<open>j\<close> changes no more than that.
\<close>

definition cmd_to :: "nat \<Rightarrow> io_call \<times> outcome \<Rightarrow> bool" where
  "cmd_to p e \<longleftrightarrow> (case e of (PrinterCmd h _, _) \<Rightarrow> h = p | _ \<Rightarrow> False)"

definition job_frame :: "nat \<Rightarrow> sys \<Rightarrow> sys \<Rightarrow> bool" where
  "job_frame p s s' \<longleftrightarrow>
     (\<exists>ns rs es. s' = s\<lparr>popups := popups s @ ns, outcomes := rs, io_log := io_log s @ es\<rparr> \<and>
                 list_all (cmd_to p) es)"

definition framed :: "nat \<Rightarrow> job \<Rightarrow> bool" where
  "framed p j \<longleftrightarrow> (\<forall>s. job_frame p s (snd (j s)))"

definition is_popup :: "event \<Rightarrow> bool" where
  "is_popup e \<longleftrightarrow> (case e of Popup _ _ _ \<Rightarrow> True | _ \<Rightarrow> False)"

text \<open>
  What an operation of the control thread that prints or talks to the device may change:
  the handle, the device status, the print lock, the next handle, and it may add notices,
  notice callbacks, and outside calls, and consume outcomes.
\<close>

definition print_frame :: "sys \<Rightarrow> sys \<Rightarrow> bool" where
  "print_frame s s' \<longleftrightarrow>
     (\<exists>pr dc pl nh ns qs rs es.
        s' = s\<lparr>printer := pr, print_lock := pl, device_connected := dc,
               popups := popups s @ ns, queue := queue s @ qs, outcomes := rs,
               io_log := io_log s @ es, next_handle := nh\<rparr> \<and>
        list_all is_popup qs)"

text \<open>
  The application after one successful print from the fresh state: it holds the handle
  0. The next outside call, whatever it is, will raise.
\<close>

definition connected_app :: sys where
  "connected_app = (print_count (fresh []))\<lparr>outcomes := [Raises ''device gone'']\<rparr>"

text \<open>
  What every callback and every click but the auto button leaves alone: the flags of the
  auto run, the worker threads, the values the workers read and the callbacks already
  run; the queue only grows, by notice callbacks. A step of a schedule is \<open>quiet\<close> when it
  is neither a click on the auto button nor a click on Add.
\<close>

definition main_frame :: "sys \<Rightarrow> sys \<Rightarrow> bool" where
  "main_frame s s' \<longleftrightarrow>
     auto_running s' = auto_running s \<and> print_scheduled s' = print_scheduled s \<and>
     workers s' = workers s \<and> dispatched s' = dispatched s \<and>
     auto_max_count s' = auto_max_count s \<and> auto_interval s' = auto_interval s \<and>
     (\<exists>qs. queue s' = queue s @ qs \<and> list_all is_popup qs)"

definition is_toggle :: "action \<Rightarrow> bool" where
  "is_toggle a \<longleftrightarrow> (case a of Click (ToggleAuto _ _) \<Rightarrow> True | _ \<Rightarrow> False)"

definition quiet :: "action \<Rightarrow> bool" where
  "quiet a \<longleftrightarrow> \<not> is_toggle a \<and> a \<noteq> Click ManualAdd"

text \<open>
  The automatic prints scheduled so far are the \<open>PrintAndReset\<close> callbacks, run or
  pending. \<open>only_stops sched s\<close> says that along the schedule \<open>sched\<close> from \<open>s\<close>, each click
  on the auto button comes while a run is active: it is a stop, no new run is started.
\<close>

definition auto_prints :: "sys \<Rightarrow> nat" where
  "auto_prints s = length (filter (\<lambda>e. e = PrintAndReset) (dispatched s @ queue s))"

fun only_stops :: "action list \<Rightarrow> sys \<Rightarrow> bool" where
  "only_stops [] s = True"
| "only_stops (a # as) s = ((is_toggle a \<longrightarrow> auto_running s) \<and> only_stops as (step a s))"

text \<open>
  A run of two counts in which the user clicks Stop while the worker is in its last
  iteration, followed by the main loop running four callbacks.
\<close>

definition racing_stop :: "action list" where
  "racing_stop =
     [Worker 0, Worker 0, Worker 0, Worker 0, Worker 0, Click (ToggleAuto None None),
      Worker 0, Worker 0, Worker 0, Worker 0, Worker 0, Worker 0,
      Dispatch, Dispatch, Dispatch, Dispatch]"

text \<open>
  A worker is in its loop at the condition, the body or the sleep. \<open>loop_steps_left\<close> is
  the number of steps it still takes in the loop once \<open>auto_running\<close> is false: from the
  body, the publication, the sleep and the condition; \<open>reach\<close> is the count it ends with
  then: the one of the iteration it has entered.
\<close>

definition in_loop :: "pc \<Rightarrow> bool" where
  "in_loop p \<longleftrightarrow> p = LoopTest \<or> p = Body \<or> p = Sleep"

definition loop_steps_left :: "pc \<Rightarrow> nat" where
  "loop_steps_left p = (if p = Body then 3 else if p = Sleep then 2 else if p = LoopTest then 1 else 0)"

definition reach :: "worker \<Rightarrow> int" where
  "reach w = w_i w + (if w_pc w = Body then 1 else 0)"

text \<open>
  The run events are the callbacks a counting run hands to the main loop: the counter
  publications and the automatic print. \<open>published n m\<close> are the publications of the
  counts 1 to \<open>n\<close> of a run to \<open>m\<close>; \<open>emitted m w\<close> is what the worker \<open>w\<close> has handed over
  so far in a run to \<open>m\<close> that nothing disturbs.
\<close>

definition is_run_event :: "event \<Rightarrow> bool" where
  "is_run_event e \<longleftrightarrow> (case e of SetCounter _ _ \<Rightarrow> True | PrintAndReset \<Rightarrow> True | _ \<Rightarrow> False)"

definition published :: "int \<Rightarrow> int \<Rightarrow> event list" where
  "published n m = map (\<lambda>v. SetCounter v m) [1..n]"

definition after_guard :: "pc \<Rightarrow> bool" where
  "after_guard p \<longleftrightarrow> p = Finally \<or> p = Cleanup \<or> p = Done"

definition emitted :: "int \<Rightarrow> worker \<Rightarrow> event list" where
  "emitted m w = published (w_i w) m @ (if after_guard (w_pc w) then [PrintAndReset] else [])"

text \<open>
  The steps a worker still takes to the end of \<open>_auto_worker\<close> in an undisturbed run to
  \<open>m\<close>: three for each remaining iteration, then the failing test, the guarded block and
  the two statements of the \<^verbatim>\<open>finally\<close> clause.
\<close>

definition steps_left :: "int \<Rightarrow> worker \<Rightarrow> nat" where
  "steps_left m w =
     (case w_pc w of
        Start \<Rightarrow> nat (3 * m + 5)
      | LoopTest \<Rightarrow> nat (3 * (m - w_i w) + 4)
      | Body \<Rightarrow> nat (3 * (m - w_i w) + 3)
      | Sleep \<Rightarrow> nat (3 * (m - w_i w) + 5)
      | Guard \<Rightarrow> 3
      | Handler _ \<Rightarrow> 3
      | Finally \<Rightarrow> 2
      | Cleanup \<Rightarrow> 1
      | Done \<Rightarrow> 0)"

text \<open>
  What holds of the worker of an undisturbed run to \<open>m\<close> with interval \<open>iv\<close>, given the
  two flags it shares with the control thread; and what holds of the whole state during
  such a run of the worker \<open>k\<close>, where \<open>base\<close> are the run events that were there before.
\<close>

definition worker_ok :: "int \<Rightarrow> pyfloat \<Rightarrow> bool \<Rightarrow> bool \<Rightarrow> worker \<Rightarrow> bool" where
  "worker_ok m iv running scheduled w \<longleftrightarrow>
     0 \<le> w_i w \<and> w_i w \<le> m \<and>
     (w_pc w = Start \<longrightarrow> w_i w = 0) \<and>
     (w_pc w \<noteq> Start \<longrightarrow> w_max_count w = m \<and> w_interval w = iv) \<and>
     (w_pc w = Body \<longrightarrow> w_i w < m) \<and>
     (w_pc w = Guard \<or> after_guard (w_pc w) \<longrightarrow> w_i w = m) \<and>
     (\<forall>msg. w_pc w \<noteq> Handler msg) \<and>
     (w_pc w = Start \<or> in_loop (w_pc w) \<or> w_pc w = Guard \<longrightarrow> running) \<and>
     (scheduled \<longleftrightarrow> after_guard (w_pc w))"

definition last_is_print :: "event list \<Rightarrow> bool" where
  "last_is_print es \<longleftrightarrow> es \<noteq> [] \<and> last es = PrintAndReset"

definition counting_inv :: "event list \<Rightarrow> int \<Rightarrow> pyfloat \<Rightarrow> nat \<Rightarrow> sys \<Rightarrow> bool" where
  "counting_inv base m iv k s \<longleftrightarrow>
     length (workers s) = Suc k \<and>
     (\<forall>j < k. w_pc (workers s ! j) = Done) \<and>
     auto_max_count s = m \<and> auto_interval s = iv \<and>
     worker_ok m iv (auto_running s) (print_scheduled s) (workers s ! k) \<and>
     filter is_run_event (dispatched s @ queue s) = base @ emitted m (workers s ! k) \<and>
     (last_is_print (filter is_run_event (dispatched s)) \<longrightarrow> counter s = 0)"

text \<open>
  A schedule that lets the worker 0 run to its end and then lets the main loop run twelve
  callbacks.
\<close>

definition full_run :: "action list" where
  "full_run = replicate 35 (Worker 0) @ replicate 12 Dispatch"

text \<open>
  The state of a run to 10 from the fresh state when the worker has finished and the
  main loop has run the ten publications: the automatic print and the cleanup wait in
  the queue.
\<close>

definition counted :: sys where
  "counted =
     (fresh [])\<lparr>auto_max_count := 10, auto_interval := Fin 1, auto_running := False,
       counter := 10, stopped_by_user := False, print_scheduled := True,
       workers := [\<lparr>w_pc = Done, w_i = 10, w_max_count = 10, w_interval = Fin 1\<rparr>],
       queue := [PrintAndReset, AutoCleanup],
       dispatched := map (\<lambda>v. SetCounter v 10) [1, 2, 3, 4, 5, 6, 7, 8, 9, 10]\<rparr>"

text \<open>
  The state of a run to 10 from the fresh state after five steps of the worker: it has
  published the count 1 and has entered the body of the second iteration. And a schedule
  for what follows a stop there.
\<close>

definition mid_run :: sys where
  "mid_run =
     (fresh [])\<lparr>auto_max_count := 10, auto_interval := Fin 1, auto_running := True,
       counter := 0, stopped_by_user := False, print_scheduled := False,
       workers := [\<lparr>w_pc = Body, w_i = 1, w_max_count = 10, w_interval = Fin 1\<rparr>],
       queue := [SetCounter 1 10]\<rparr>"

definition after_stop :: "action list" where
  "after_stop = [Worker 0, Dispatch, Worker 0, Click ManualAdd, Worker 0, Dispatch]"

section \<open>Properties of the configuration store\<close>

lemmas text_defs = py_int_def py_strip_def py_isspace_def split_sign_def strip_prefix16_def
  literal_digits_def digit_value_def with_prefix_def startswith_def

lemmas float_defs = py_float_def parse_decimal_def parse_exponent_def pow10_def digits_nat_def
  is_digit_def lower_char_def

lemma map_of_dict_set: "map_of (dict_set d k v) = (map_of d)(k \<mapsto> v)"
  by (induction d k v rule: dict_set.induct) auto

lemma merge_defaults_obj:
  "\<exists>d'. merge_defaults (JObj d) kvs = Some (JObj d') \<and>
        (\<forall>k. map_of d' k = (case map_of d k of Some v \<Rightarrow> Some v | None \<Rightarrow> map_of kvs k))"
proof (induction kvs arbitrary: d)
  case Nil
  then show ?case by (simp split: option.splits)
next
  case (Cons kv kvs)
  obtain k v where kv: "kv = (k, v)" by (cases kv)
  show ?case
  proof (cases "map_of d k")
    case None
    from Cons.IH [of "dict_set d k v"] obtain d' where
      d': "merge_defaults (JObj (dict_set d k v)) kvs = Some (JObj d')"
      "\<forall>x. map_of d' x =
         (case map_of (dict_set d k v) x of Some v \<Rightarrow> Some v | None \<Rightarrow> map_of kvs x)"
      by blast
    show ?thesis using None d' kv
      by (auto simp: map_of_dict_set split: option.splits)
  next
    case (Some a)
    from Cons.IH [of d] obtain d' where
      d': "merge_defaults (JObj d) kvs = Some (JObj d')"
      "\<forall>x. map_of d' x = (case map_of d x of Some v \<Rightarrow> Some v | None \<Rightarrow> map_of kvs x)"
      by blast
    show ?thesis using Some d' kv
      by (auto split: option.splits)
  qed
qed

lemma merge_defaults_same:
  "\<forall>k \<in> fst ` set kvs. map_of d k \<noteq> None \<Longrightarrow> merge_defaults (JObj d) kvs = Some (JObj d)"
  by (induction kvs) (auto split: option.splits bool.splits)

lemma load_config_obj:
  "\<exists>d'. load_config (Parsed (JObj d)) = JObj d' \<and>
        (\<forall>k. dict_get d' k =
              (case dict_get d k of Some v \<Rightarrow> Some v | None \<Rightarrow> dict_get DEFAULT_CONFIG k))"
proof -
  from merge_defaults_obj [of d DEFAULT_CONFIG] obtain d' where
    d': "merge_defaults (JObj d) DEFAULT_CONFIG = Some (JObj d')"
        "\<forall>k. map_of d' k =
             (case map_of d k of Some v \<Rightarrow> Some v | None \<Rightarrow> map_of DEFAULT_CONFIG k)"
    by blast
  have "load_config (Parsed (JObj d)) = JObj d'"
    using d'(1) by (simp add: load_config_def)
  then show ?thesis
    using d'(2) unfolding dict_get_def by blast
qed

lemma load_config_complete:
  "\<forall>k \<in> fst ` set DEFAULT_CONFIG. dict_get d k \<noteq> None \<Longrightarrow>
   load_config (Parsed (JObj d)) = JObj d"
  using merge_defaults_same [of DEFAULT_CONFIG d]
  by (simp add: load_config_def dict_get_def)

text \<open>
  C7. Save followed by Load is a round trip. When \<open>save_config\<close> reports success on a
  configuration, \<open>load_config\<close> on the file it wrote returns a configuration that holds,
  for every key of the saved one, the saved value, and the saved configuration itself
  when that has all five recognized keys. On a missing file, on a file that cannot be
  read as JSON, and on a file whose value makes the merge with the defaults raise,
  \<open>load_config\<close> returns exactly \<open>DEFAULT_CONFIG\<close>. On a file holding a
  JSON object, it returns the object with each missing recognized key filled from
  \<open>DEFAULT_CONFIG\<close> and every other key as it was.
\<close>

theorem save_then_load_round_trip:
  "(save_config opened dumped cfg f = (True, f') \<longrightarrow>
      (\<exists>d. load_config f' = JObj d \<and>
           (\<forall>k v. dict_get cfg k = Some v \<longrightarrow> dict_get d k = Some v) \<and>
           ((\<forall>k \<in> fst ` set DEFAULT_CONFIG. dict_get cfg k \<noteq> None) \<longrightarrow> d = cfg))) \<and>
   load_config Missing = JObj DEFAULT_CONFIG \<and>
   load_config Unparsable = JObj DEFAULT_CONFIG \<and>
   (merge_defaults broken DEFAULT_CONFIG = None \<longrightarrow>
      load_config (Parsed broken) = JObj DEFAULT_CONFIG) \<and>
   (\<exists>d'. load_config (Parsed (JObj partial)) = JObj d' \<and>
         (\<forall>k. dict_get d' k =
               (case dict_get partial k of
                  Some v \<Rightarrow> Some v
                | None \<Rightarrow> dict_get DEFAULT_CONFIG k)))"
proof (intro conjI impI)
  assume saved: "save_config opened dumped cfg f = (True, f')"
  then have f': "f' = Parsed (JObj cfg)"
    by (auto simp: save_config_def split: outcome.splits)
  from load_config_obj [of cfg] obtain d where
    d: "load_config (Parsed (JObj cfg)) = JObj d"
       "\<forall>k. dict_get d k =
            (case dict_get cfg k of Some v \<Rightarrow> Some v | None \<Rightarrow> dict_get DEFAULT_CONFIG k)"
    by blast
  have keeps: "\<forall>k v. dict_get cfg k = Some v \<longrightarrow> dict_get d k = Some v"
    using d(2) by simp
  have same: "(\<forall>k \<in> fst ` set DEFAULT_CONFIG. dict_get cfg k \<noteq> None) \<longrightarrow> d = cfg"
    using load_config_complete [of cfg] d(1) by auto
  show "\<exists>d. load_config f' = JObj d \<and>
           (\<forall>k v. dict_get cfg k = Some v \<longrightarrow> dict_get d k = Some v) \<and>
           ((\<forall>k \<in> fst ` set DEFAULT_CONFIG. dict_get cfg k \<noteq> None) \<longrightarrow> d = cfg)"
    using f' d(1) keeps same by blast
next
  show "load_config Missing = JObj DEFAULT_CONFIG"
    by (simp add: load_config_def)
next
  show "load_config Unparsable = JObj DEFAULT_CONFIG"
    by (simp add: load_config_def)
next
  assume "merge_defaults broken DEFAULT_CONFIG = None"
  then show "load_config (Parsed broken) = JObj DEFAULT_CONFIG"
    by (simp add: load_config_def)
next
  show "\<exists>d'. load_config (Parsed (JObj partial)) = JObj d' \<and>
         (\<forall>k. dict_get d' k =
               (case dict_get partial k of
                  Some v \<Rightarrow> Some v
                | None \<Rightarrow> dict_get DEFAULT_CONFIG k))"
    by (rule load_config_obj)
qed

theorem save_then_load_round_trip_witness:
  "save_config Ok Ok (dict_set DEFAULT_CONFIG ''interface'' (JInt 2)) Missing =
     (True, Parsed (JObj (dict_set DEFAULT_CONFIG ''interface'' (JInt 2)))) \<and>
   load_config (Parsed (JObj (dict_set DEFAULT_CONFIG ''interface'' (JInt 2)))) =
     JObj (dict_set DEFAULT_CONFIG ''interface'' (JInt 2)) \<and>
   dict_get (dict_set DEFAULT_CONFIG ''interface'' (JInt 2)) ''interface'' = Some (JInt 2)"
proof -
  let ?cfg = "dict_set DEFAULT_CONFIG ''interface'' (JInt 2)"
  have saved: "save_config Ok Ok ?cfg Missing = (True, Parsed (JObj ?cfg))"
    by (simp add: save_config_def)
  have full: "\<forall>k \<in> fst ` set DEFAULT_CONFIG. dict_get ?cfg k \<noteq> None"
    by (simp add: DEFAULT_CONFIG_def dict_get_def)
  from save_then_load_round_trip [of Ok Ok ?cfg Missing "Parsed (JObj ?cfg)" "JInt 5" "[]"] saved
  obtain d where d: "load_config (Parsed (JObj ?cfg)) = JObj d"
    "(\<forall>k \<in> fst ` set DEFAULT_CONFIG. dict_get ?cfg k \<noteq> None) \<longrightarrow> d = ?cfg"
    by blast
  from d full have "load_config (Parsed (JObj ?cfg)) = JObj ?cfg" by simp
  moreover have "dict_get ?cfg ''interface'' = Some (JInt 2)"
    by (simp add: DEFAULT_CONFIG_def dict_get_def)
  ultimately show ?thesis using saved by simp
qed

text \<open>
  C10. The accessors of the vendor and product identifiers return an integer for every
  stored value. This fails on the code: a stored value that is not text is returned as
  it is. With a configuration file holding \<^verbatim>\<open>{"vendor_id": null, "product_id": 1.5}\<close>,
  \<open>load_config\<close> keeps both values and the accessors return \<^verbatim>\<open>None\<close> and \<^verbatim>\<open>1.5\<close>, neither
  an integer nor the built-in identifier.
\<close>

theorem identifier_accessors_keep_non_text:
  "load_config (Parsed (JObj [(''vendor_id'', JNull), (''product_id'', JFloat (Fin (3/2)))])) =
     JObj [(''vendor_id'', JNull), (''product_id'', JFloat (Fin (3/2))),
           (''interface'', JInt 0), (''auto_max_count'', JInt 10),
           (''auto_interval'', JFloat (Fin 1))] \<and>
   get_vendor_id [(''vendor_id'', JNull), (''product_id'', JFloat (Fin (3/2))),
                  (''interface'', JInt 0), (''auto_max_count'', JInt 10),
                  (''auto_interval'', JFloat (Fin 1))] = JNull \<and>
   get_product_id [(''vendor_id'', JNull), (''product_id'', JFloat (Fin (3/2))),
                   (''interface'', JInt 0), (''auto_max_count'', JInt 10),
                   (''auto_interval'', JFloat (Fin 1))] = JFloat (Fin (3/2)) \<and>
   is_int JNull = False \<and> is_int (JFloat (Fin (3/2))) = False"
  by (simp add: load_config_def DEFAULT_CONFIG_def get_vendor_id_def get_product_id_def
      dict_get_default_def is_int_def)

text \<open>
  What does hold of the accessors: on stored text, and on a missing key, the result is
  an integer, the built-in identifier when the text does not parse.
\<close>

lemma get_vendor_id_text:
  "dict_get cfg ''vendor_id'' = None \<or> (\<exists>t. dict_get cfg ''vendor_id'' = Some (JStr t)) \<Longrightarrow>
   \<exists>n. get_vendor_id cfg = JInt n"
  by (auto simp: get_vendor_id_def dict_get_default_def dict_get_def split: option.splits)

lemma get_product_id_text:
  "dict_get cfg ''product_id'' = None \<or> (\<exists>t. dict_get cfg ''product_id'' = Some (JStr t)) \<Longrightarrow>
   \<exists>n. get_product_id cfg = JInt n"
  by (auto simp: get_product_id_def dict_get_default_def dict_get_def split: option.splits)

section \<open>Properties of the counter and of the settings\<close>

lemma exec_append: "exec (xs @ ys) s = exec ys (exec xs s)"
  by (induction xs arbitrary: s) auto

lemma since_last_reset_snoc:
  "since_last_reset (cs @ [c]) = (if c = ResetCounter then [] else since_last_reset cs @ [c])"
  by (simp add: since_last_reset_def)

lemma counter_after_calls:
  "set cs \<subseteq> {ManualAdd, ResetCounter} \<Longrightarrow>
   counter (exec (map Click cs) s) =
     (if ResetCounter \<in> set cs then 0 else counter s) + int (adds_since_reset cs)"
proof (induction cs rule: rev_induct)
  case Nil
  show ?case by (simp add: adds_since_reset_def since_last_reset_def)
next
  case (snoc c cs)
  then have IH: "counter (exec (map Click cs) s) =
      (if ResetCounter \<in> set cs then 0 else counter s) + int (adds_since_reset cs)"
    and c: "c = ManualAdd \<or> c = ResetCounter"
    by auto
  from c show ?case
  proof
    assume "c = ManualAdd"
    then show ?thesis using IH
      by (simp add: exec_append manual_add_def adds_since_reset_def since_last_reset_snoc)
  next
    assume "c = ResetCounter"
    then show ?thesis
      by (simp add: exec_append reset_counter_def adds_since_reset_def since_last_reset_snoc)
  qed
qed

lemma init_counter: "PrinterApp_init f orc clk = Some s \<Longrightarrow> counter s = 0"
  by (auto simp: PrinterApp_init_def split: json.splits)

text \<open>
  C5. For every finite sequence of \<open>ManualAdd\<close> and \<open>ResetCounter\<close> calls run on the
  control thread, the counter equals the number of \<open>ManualAdd\<close> calls since the most
  recent \<open>ResetCounter\<close>: from any state, it is that number, added to the counter of the
  starting state when the sequence has no \<open>ResetCounter\<close>; from the state the
  application starts in, where the counter is 0, it is that number, and not negative.
\<close>

theorem counter_counts_adds_since_reset:
  assumes "set cs \<subseteq> {ManualAdd, ResetCounter}"
  shows "counter (exec (map Click cs) s) =
           (if ResetCounter \<in> set cs then 0 else counter s) + int (adds_since_reset cs) \<and>
         (PrinterApp_init f orc clk = Some s \<longrightarrow>
            counter (exec (map Click cs) s) = int (adds_since_reset cs) \<and>
            0 \<le> counter (exec (map Click cs) s))"
  using counter_after_calls [OF assms, of s] init_counter [of f orc clk s] by auto

theorem counter_counts_adds_since_reset_witness:
  "set [ManualAdd, ManualAdd, ResetCounter, ManualAdd, ManualAdd, ManualAdd]
     \<subseteq> {ManualAdd, ResetCounter} \<and>
   PrinterApp_init Missing [] ([], 0) = Some (the (PrinterApp_init Missing [] ([], 0))) \<and>
   adds_since_reset [ManualAdd, ManualAdd, ResetCounter, ManualAdd, ManualAdd, ManualAdd] = 3 \<and>
   counter (exec (map Click [ManualAdd, ManualAdd, ResetCounter, ManualAdd, ManualAdd, ManualAdd])
              (the (PrinterApp_init Missing [] ([], 0)))) = 3"
proof -
  let ?cs = "[ManualAdd, ManualAdd, ResetCounter, ManualAdd, ManualAdd, ManualAdd]"
  let ?s = "the (PrinterApp_init Missing [] ([], 0))"
  have sub: "set ?cs \<subseteq> {ManualAdd, ResetCounter}" by simp
  have init: "PrinterApp_init Missing [] ([], 0) = Some ?s"
    by (simp add: PrinterApp_init_def load_config_def)
  have n: "adds_since_reset ?cs = 3"
    by (simp add: adds_since_reset_def since_last_reset_def)
  from counter_counts_adds_since_reset [OF sub, of ?s Missing "[]" "([], 0)"] init n
  have "counter (exec (map Click ?cs) ?s) = 3" by simp
  with sub init n show ?thesis by simp
qed

text \<open>
  C6. Starting an auto run cleans its inputs without raising. From a state where no run
  is active, \<open>toggle_auto\<close> on the texts of the two entry fields sets the maximum to 10
  when \<^verbatim>\<open>int\<close> rejects the text, to 1 when the number is below 1 and to the number
  otherwise; it sets the interval to 1.0 when \<^verbatim>\<open>float\<close> rejects the text, to 0.1 when the
  number is below 0.1 and to the number otherwise; it shows no notice; and it sets the
  counter to 0, \<open>auto_running\<close> to true, \<open>stopped_by_user\<close> and \<open>print_scheduled\<close> to false,
  and starts exactly one worker.
\<close>

theorem start_auto_run_sanitizes:
  assumes "\<not> auto_running s"
  shows "(py_int 10 mt = None \<longrightarrow> auto_max_count (toggle_auto (Some mt) (Some it) s) = 10) \<and>
         (\<forall>n. py_int 10 mt = Some n \<and> n < 1 \<longrightarrow>
              auto_max_count (toggle_auto (Some mt) (Some it) s) = 1) \<and>
         (\<forall>n. py_int 10 mt = Some n \<and> 1 \<le> n \<longrightarrow>
              auto_max_count (toggle_auto (Some mt) (Some it) s) = n) \<and>
         (py_float it = None \<longrightarrow> auto_interval (toggle_auto (Some mt) (Some it) s) = Fin 1) \<and>
         (\<forall>x. py_float it = Some x \<and> float_less x (Fin (1 / 10)) \<longrightarrow>
              auto_interval (toggle_auto (Some mt) (Some it) s) = Fin (1 / 10)) \<and>
         (\<forall>x. py_float it = Some x \<and> \<not> float_less x (Fin (1 / 10)) \<longrightarrow>
              auto_interval (toggle_auto (Some mt) (Some it) s) = x) \<and>
         counter (toggle_auto (Some mt) (Some it) s) = 0 \<and>
         auto_running (toggle_auto (Some mt) (Some it) s) \<and>
         \<not> stopped_by_user (toggle_auto (Some mt) (Some it) s) \<and>
         \<not> print_scheduled (toggle_auto (Some mt) (Some it) s) \<and>
         workers (toggle_auto (Some mt) (Some it) s) = workers s @ [new_worker] \<and>
         popups (toggle_auto (Some mt) (Some it) s) = popups s \<and>
         queue (toggle_auto (Some mt) (Some it) s) = queue s"
  using assms by (simp add: toggle_auto_def read_max_count_def read_interval_def)

theorem start_auto_run_sanitizes_witness:
  "auto_running (the (PrinterApp_init Missing [] ([], 0))) = False \<and>
   py_int 10 ''0'' = Some 0 \<and> py_float ''0.05'' = Some (Fin (1 / 20)) \<and>
   py_int 10 ''abc'' = None \<and> py_float ''fast'' = None \<and>
   auto_max_count (toggle_auto (Some ''0'') (Some ''0.05'')
                     (the (PrinterApp_init Missing [] ([], 0)))) = 1 \<and>
   auto_interval (toggle_auto (Some ''0'') (Some ''0.05'')
                    (the (PrinterApp_init Missing [] ([], 0)))) = Fin (1 / 10) \<and>
   auto_max_count (toggle_auto (Some ''abc'') (Some ''fast'')
                     (the (PrinterApp_init Missing [] ([], 0)))) = 10 \<and>
   auto_interval (toggle_auto (Some ''abc'') (Some ''fast'')
                    (the (PrinterApp_init Missing [] ([], 0)))) = Fin 1 \<and>
   workers (toggle_auto (Some ''abc'') (Some ''fast'')
              (the (PrinterApp_init Missing [] ([], 0)))) = [new_worker]"
proof -
  let ?s = "the (PrinterApp_init Missing [] ([], 0))"
  have idle: "\<not> auto_running ?s" and none: "workers ?s = []"
    by (simp_all add: PrinterApp_init_def load_config_def)
  have p1: "py_int 10 ''0'' = Some 0" by (simp add: text_defs)
  have p2: "py_float ''0.05'' = Some (Fin (1 / 20))" by (simp add: text_defs float_defs)
  have p3: "py_int 10 ''abc'' = None" by (simp add: text_defs)
  have p4: "py_float ''fast'' = None" by (simp add: text_defs float_defs)
  have lt: "float_less (Fin (1 / 20)) (Fin (1 / 10))" by simp
  note a = start_auto_run_sanitizes [OF idle, of "''0''" "''0.05''"]
  note b = start_auto_run_sanitizes [OF idle, of "''abc''" "''fast''"]
  from a p1 have m1: "auto_max_count (toggle_auto (Some ''0'') (Some ''0.05'') ?s) = 1"
    by simp
  from a p2 lt have i1: "auto_interval (toggle_auto (Some ''0'') (Some ''0.05'') ?s) = Fin (1 / 10)"
    by blast
  from b p3 have m2: "auto_max_count (toggle_auto (Some ''abc'') (Some ''fast'') ?s) = 10"
    by blast
  from b p4 have i2: "auto_interval (toggle_auto (Some ''abc'') (Some ''fast'') ?s) = Fin 1"
    by blast
  from b none have w: "workers (toggle_auto (Some ''abc'') (Some ''fast'') ?s) = [new_worker]"
    by simp
  from idle p1 p2 p3 p4 m1 i1 m2 i2 w show ?thesis by simp
qed

lemma reject_vendor:
  "\<not> hex_text_ok v \<Longrightarrow> save_settings v p i s = s\<lparr>popups := popups s @ [invalid_vendor]\<rparr>"
  by (simp add: save_settings_def hex_text_ok_def Let_def)

lemma reject_product:
  "hex_text_ok v \<Longrightarrow> \<not> hex_text_ok p \<Longrightarrow>
   save_settings v p i s = s\<lparr>popups := popups s @ [invalid_product]\<rparr>"
  by (auto simp: save_settings_def hex_text_ok_def Let_def)

lemma reject_interface:
  "hex_text_ok v \<Longrightarrow> hex_text_ok p \<Longrightarrow> \<not> int_text_ok i \<Longrightarrow>
   save_settings v p i s = s\<lparr>popups := popups s @ [invalid_interface]\<rparr>"
  by (auto simp: save_settings_def hex_text_ok_def int_text_ok_def Let_def)

lemma rejected_cases:
  "\<not> (hex_text_ok v \<and> hex_text_ok p \<and> int_text_ok i) \<Longrightarrow>
   \<exists>notice. save_settings v p i s = s\<lparr>popups := popups s @ [notice]\<rparr>"
  using reject_vendor [of v p i s] reject_product [of v p i s] reject_interface [of v p i s]
  by blast

lemma notices_differ:
  "invalid_vendor \<noteq> invalid_product \<and> invalid_vendor \<noteq> invalid_interface \<and>
   invalid_product \<noteq> invalid_interface"
  by (simp add: invalid_vendor_def invalid_product_def invalid_interface_def)

text \<open>
  C8. Saving settings whose vendor or product identifier is not accepted as hexadecimal
  text, or whose interface is not accepted as an integer, is rejected before any change:
  \<open>save_settings\<close> returns the state it was given with one notice added (so the
  configuration in memory, the configuration file, the printer handle and the list of
  outside calls are as before: nothing was written), and the notice is the one of the
  first field that fails, the three notices being different.
\<close>

theorem invalid_settings_rejected:
  "(\<not> hex_text_ok v \<longrightarrow>
      save_settings v p i s = s\<lparr>popups := popups s @ [invalid_vendor]\<rparr>) \<and>
   (hex_text_ok v \<and> \<not> hex_text_ok p \<longrightarrow>
      save_settings v p i s = s\<lparr>popups := popups s @ [invalid_product]\<rparr>) \<and>
   (hex_text_ok v \<and> hex_text_ok p \<and> \<not> int_text_ok i \<longrightarrow>
      save_settings v p i s = s\<lparr>popups := popups s @ [invalid_interface]\<rparr>) \<and>
   (\<not> (hex_text_ok v \<and> hex_text_ok p \<and> int_text_ok i) \<longrightarrow>
      config (save_settings v p i s) = config s \<and>
      config_file (save_settings v p i s) = config_file s \<and>
      printer (save_settings v p i s) = printer s \<and>
      io_log (save_settings v p i s) = io_log s) \<and>
   invalid_vendor \<noteq> invalid_product \<and> invalid_vendor \<noteq> invalid_interface \<and>
   invalid_product \<noteq> invalid_interface"
proof -
  have unchanged: "\<not> (hex_text_ok v \<and> hex_text_ok p \<and> int_text_ok i) \<longrightarrow>
      config (save_settings v p i s) = config s \<and>
      config_file (save_settings v p i s) = config_file s \<and>
      printer (save_settings v p i s) = printer s \<and>
      io_log (save_settings v p i s) = io_log s"
  proof
    assume "\<not> (hex_text_ok v \<and> hex_text_ok p \<and> int_text_ok i)"
    from rejected_cases [OF this, of s] obtain notice where
      "save_settings v p i s = s\<lparr>popups := popups s @ [notice]\<rparr>" ..
    then show "config (save_settings v p i s) = config s \<and>
      config_file (save_settings v p i s) = config_file s \<and>
      printer (save_settings v p i s) = printer s \<and>
      io_log (save_settings v p i s) = io_log s"
      by simp
  qed
  show ?thesis
    using reject_vendor [of v p i s] reject_product [of v p i s] reject_interface [of v p i s]
      unchanged notices_differ
    by blast
qed

theorem invalid_settings_rejected_witness:
  "hex_text_ok ''zzzz'' = False \<and> hex_text_ok ''811e'' = True \<and> int_text_ok ''abc'' = False \<and>
   save_settings ''zzzz'' ''811e'' ''0'' (the (PrinterApp_init Missing [] ([], 0))) =
     (the (PrinterApp_init Missing [] ([], 0)))\<lparr>popups := [invalid_vendor]\<rparr> \<and>
   save_settings ''0fe6'' ''811e'' ''abc'' (the (PrinterApp_init Missing [] ([], 0))) =
     (the (PrinterApp_init Missing [] ([], 0)))\<lparr>popups := [invalid_interface]\<rparr> \<and>
   config_file (save_settings ''0fe6'' ''811e'' ''abc'' (the (PrinterApp_init Missing [] ([], 0))))
     = Missing"
proof -
  let ?s = "the (PrinterApp_init Missing [] ([], 0))"
  have h1: "\<not> hex_text_ok ''zzzz''" by (simp add: hex_text_ok_def text_defs)
  have h2: "hex_text_ok ''811e''" by (simp add: hex_text_ok_def text_defs)
  have h3: "hex_text_ok ''0fe6''" by (simp add: hex_text_ok_def text_defs)
  have h4: "\<not> int_text_ok ''abc''" by (simp add: int_text_ok_def text_defs)
  have none: "popups ?s = []" and cfile: "config_file ?s = Missing"
    by (simp_all add: PrinterApp_init_def load_config_def)
  from invalid_settings_rejected [of "''zzzz''" "''811e''" "''0''" ?s] h1 none
  have a: "save_settings ''zzzz'' ''811e'' ''0'' ?s = ?s\<lparr>popups := [invalid_vendor]\<rparr>"
    by simp
  from invalid_settings_rejected [of "''0fe6''" "''811e''" "''abc''" ?s] h2 h3 h4 none
  have b: "save_settings ''0fe6'' ''811e'' ''abc'' ?s = ?s\<lparr>popups := [invalid_interface]\<rparr>"
    by simp
  from b cfile have c: "config_file (save_settings ''0fe6'' ''811e'' ''abc'' ?s) = Missing"
    by simp
  from h1 h2 h4 a b c show ?thesis by simp
qed

section \<open>Properties of printing\<close>

lemma init_fresh:
  "PrinterApp_init Missing orc (''04-11-2026 09:30:00'', 1793784600) = Some (fresh orc)"
  by (simp add: PrinterApp_init_def load_config_def fresh_def DEFAULT_CONFIG_def
      dict_get_default_def)

lemmas job_defs = seq_def try_except_def cmd_def pass_def popup_job_def make_popup_def
  after_def set_large_def bold_text_def cut_paper_def ext_call_def

lemmas print_defs = print_count_def test_print_def print_job_def connect_printer_def
  set_device_status_def count_receipt_def test_receipt_def get_vendor_id_def
  get_product_id_def get_interface_def dict_get_default_def DEFAULT_CONFIG_def

lemma connection_failure_path:
  "queue (print_count (fresh [Raises ''no device''])) =
     [Popup ''Connection Error'' (''Gagal terhubung ke printer:'' @ nl @ ''no device'') ''error'']"
  by (simp add: fresh_def print_defs job_defs text_defs nl_def)

lemma printer_error_path:
  "popups (print_count (fresh [Ok, Ok, Ok, Ok, Ok, Ok, Raises ''paper out''])) =
     [(''Print Error'', ''Gagal mencetak:'' @ nl @ ''paper out'', ''error'')]"
  by (simp add: fresh_def print_defs job_defs text_defs Let_def)

lemma test_print_error_path:
  "popups (test_print (fresh [Ok, Ok, Ok, Ok, Ok, Ok, Raises ''paper out''])) =
     [(''Print Error'', ''Gagal mencetak:'' @ nl @ ''paper out'', ''error'')]"
  by (simp add: fresh_def print_defs job_defs text_defs Let_def)

lemma success_path:
  "popups (print_count (fresh [])) = [(''Success'', ''Struk berhasil dicetak.'', ''success'')]"
  by (simp add: fresh_def print_defs job_defs text_defs Let_def)

text \<open>
  C3. \<open>print_count\<close> and \<open>test_print\<close> take the print lock without blocking. When the
  lock is held, each returns the state it was given with the notice that a print is in
  progress added, and nothing else changed. When the lock is free, the lock is free
  again in the state each returns, whatever the outcomes of the outside calls are:
  the connection failing, a printer command raising, or all of them succeeding.
\<close>

theorem print_lock_taken_without_blocking_and_released:
  "(print_lock s \<longrightarrow>
      print_count s = s\<lparr>popups := popups s @ [busy_notice]\<rparr> \<and>
      test_print s = s\<lparr>popups := popups s @ [busy_notice]\<rparr>) \<and>
   (\<not> print_lock s \<longrightarrow>
      \<not> print_lock (print_count s) \<and> \<not> print_lock (test_print s))"
  by (simp add: print_count_def test_print_def print_job_def Let_def split: prod.splits)

theorem print_lock_taken_without_blocking_and_released_witness:
  "print_lock ((fresh [])\<lparr>print_lock := True\<rparr>) = True \<and>
   print_count ((fresh [])\<lparr>print_lock := True\<rparr>) =
     (fresh [])\<lparr>print_lock := True, popups := [busy_notice]\<rparr> \<and>
   print_lock (fresh [Raises ''no device'']) = False \<and>
   print_lock (print_count (fresh [Raises ''no device''])) = False \<and>
   queue (print_count (fresh [Raises ''no device''])) =
     [Popup ''Connection Error'' (''Gagal terhubung ke printer:'' @ nl @ ''no device'') ''error''] \<and>
   print_lock (print_count (fresh [Ok, Ok, Ok, Ok, Ok, Ok, Raises ''paper out''])) = False \<and>
   popups (print_count (fresh [Ok, Ok, Ok, Ok, Ok, Ok, Raises ''paper out''])) =
     [(''Print Error'', ''Gagal mencetak:'' @ nl @ ''paper out'', ''error'')] \<and>
   print_lock (test_print (fresh [Ok, Ok, Ok, Ok, Ok, Ok, Raises ''paper out''])) = False \<and>
   print_lock (print_count (fresh [])) = False \<and>
   popups (print_count (fresh [])) = [(''Success'', ''Struk berhasil dicetak.'', ''success'')]"
proof -
  have held: "print_lock ((fresh [])\<lparr>print_lock := True\<rparr>)" by simp
  have free: "\<not> print_lock (fresh orc)" for orc by (simp add: fresh_def)
  have none: "popups (fresh []) = []" by (simp add: fresh_def)
  from print_lock_taken_without_blocking_and_released [of "(fresh [])\<lparr>print_lock := True\<rparr>"]
    held none
  have busy: "print_count ((fresh [])\<lparr>print_lock := True\<rparr>) =
      (fresh [])\<lparr>print_lock := True, popups := [busy_notice]\<rparr>"
    by simp
  have released: "\<not> print_lock (print_count (fresh orc)) \<and> \<not> print_lock (test_print (fresh orc))"
    for orc
    using print_lock_taken_without_blocking_and_released [of "fresh orc"] free [of orc]
    by blast
  show ?thesis
    using held busy free released connection_failure_path printer_error_path success_path
    by simp
qed

section \<open>What the operations of the control thread change\<close>

lemma job_frame_refl: "job_frame p s s"
  unfolding job_frame_def
  by (rule exI [of _ "[]"], rule exI [of _ "outcomes s"], rule exI [of _ "[]"]) simp

lemma job_frame_trans:
  assumes "job_frame p s s1" and "job_frame p s1 s2"
  shows "job_frame p s s2"
proof -
  from assms(1) obtain ns rs es where
    1: "s1 = s\<lparr>popups := popups s @ ns, outcomes := rs, io_log := io_log s @ es\<rparr>"
       "list_all (cmd_to p) es"
    unfolding job_frame_def by blast
  from assms(2) obtain ns' rs' es' where
    2: "s2 = s1\<lparr>popups := popups s1 @ ns', outcomes := rs', io_log := io_log s1 @ es'\<rparr>"
       "list_all (cmd_to p) es'"
    unfolding job_frame_def by blast
  have "s2 = s\<lparr>popups := popups s @ (ns @ ns'), outcomes := rs',
               io_log := io_log s @ (es @ es')\<rparr>"
    using 1(1) 2(1) by simp
  moreover have "list_all (cmd_to p) (es @ es')"
    using 1(2) 2(2) by simp
  ultimately show ?thesis
    unfolding job_frame_def by blast
qed

lemma framed_pass: "framed p pass"
  by (simp add: framed_def pass_def job_frame_refl)

lemma framed_popup: "framed p (popup_job t m k)"
  unfolding framed_def job_frame_def popup_job_def make_popup_def
proof
  fix s
  show "\<exists>ns rs es. snd (None, s\<lparr>popups := popups s @ [(t, m, k)]\<rparr>) =
      s\<lparr>popups := popups s @ ns, outcomes := rs, io_log := io_log s @ es\<rparr> \<and>
      list_all (cmd_to p) es"
    by (rule exI [of _ "[(t, m, k)]"], rule exI [of _ "outcomes s"], rule exI [of _ "[]"]) simp
qed

lemma ext_call_cmd_frame: "job_frame p s (snd (ext_call (PrinterCmd p c) s))"
proof (cases "outcomes s")
  case Nil
  show ?thesis unfolding job_frame_def
    by (rule exI [of _ "[]"], rule exI [of _ "[]"], rule exI [of _ "[(PrinterCmd p c, Ok)]"])
       (simp add: ext_call_def Nil cmd_to_def)
next
  case (Cons r rs)
  show ?thesis unfolding job_frame_def
    by (rule exI [of _ "[]"], rule exI [of _ rs], rule exI [of _ "[(PrinterCmd p c, r)]"])
       (simp add: ext_call_def Cons cmd_to_def)
qed

lemma framed_cmd: "q = None \<or> q = Some p \<Longrightarrow> framed p (cmd q c)"
  unfolding framed_def
proof
  fix s
  assume q: "q = None \<or> q = Some p"
  show "job_frame p s (snd (cmd q c s))"
  proof (cases q)
    case None
    then show ?thesis by (simp add: cmd_def job_frame_refl)
  next
    case (Some h)
    with q have "h = p" by simp
    with Some ext_call_cmd_frame [of p s c] show ?thesis
      by (auto simp: cmd_def split: prod.splits outcome.splits)
  qed
qed

lemma framed_seq: "framed p a \<Longrightarrow> framed p b \<Longrightarrow> framed p (seq a b)"
  unfolding framed_def
proof
  fix s
  assume a: "\<forall>s. job_frame p s (snd (a s))" and b: "\<forall>s. job_frame p s (snd (b s))"
  obtain r s1 where as: "a s = (r, s1)" by (cases "a s")
  from a as have 1: "job_frame p s s1" by (metis snd_conv)
  show "job_frame p s (snd (seq a b s))"
  proof (cases r)
    case None
    with as have "seq a b s = b s1" by (simp add: seq_def)
    with b 1 show ?thesis using job_frame_trans by metis
  next
    case (Some m)
    with as 1 show ?thesis by (simp add: seq_def)
  qed
qed

lemma framed_try: "framed p a \<Longrightarrow> framed p h \<Longrightarrow> framed p (try_except a h)"
  unfolding framed_def
proof
  fix s
  assume a: "\<forall>s. job_frame p s (snd (a s))" and h: "\<forall>s. job_frame p s (snd (h s))"
  obtain r s1 where as: "a s = (r, s1)" by (cases "a s")
  from a as have 1: "job_frame p s s1" by (metis snd_conv)
  show "job_frame p s (snd (try_except a h s))"
  proof (cases r)
    case None
    with as 1 show ?thesis by (simp add: try_except_def)
  next
    case (Some m)
    with as have "try_except a h s = h s1" by (simp add: try_except_def)
    with h 1 show ?thesis using job_frame_trans by metis
  qed
qed

lemma framed_seqs_Nil: "framed p (seqs [])"
  by (simp add: framed_pass)

lemma framed_seqs_Cons: "framed p a \<Longrightarrow> framed p (seqs as) \<Longrightarrow> framed p (seqs (a # as))"
  by (simp add: framed_seq)

lemmas framed_intros = framed_pass framed_popup framed_seq framed_try framed_seqs_Nil
  framed_seqs_Cons

lemma framed_count_receipt: "printer s = None \<or> printer s = Some p \<Longrightarrow> framed p (count_receipt s)"
  unfolding count_receipt_def Let_def set_large_def bold_text_def cut_paper_def
  by (intro framed_intros framed_cmd)

lemma framed_test_receipt: "printer s = None \<or> printer s = Some p \<Longrightarrow> framed p (test_receipt s)"
  unfolding test_receipt_def Let_def set_large_def bold_text_def cut_paper_def
  by (intro framed_intros framed_cmd)

lemma print_frameI:
  "s' = s\<lparr>printer := pr, print_lock := pl, device_connected := dc,
          popups := popups s @ ns, queue := queue s @ qs, outcomes := rs,
          io_log := io_log s @ es, next_handle := nh\<rparr> \<Longrightarrow>
   list_all is_popup qs \<Longrightarrow> print_frame s s'"
  unfolding print_frame_def by blast

lemma print_frame_refl: "print_frame s s"
  by (rule print_frameI [where pr = "printer s" and pl = "print_lock s"
          and dc = "device_connected s"
          and ns = "[]" and qs = "[]" and rs = "outcomes s" and es = "[]" and nh = "next_handle s"]) simp_all

lemma print_frame_trans:
  assumes "print_frame s s1" and "print_frame s1 s2"
  shows "print_frame s s2"
proof -
  from assms(1) obtain pr dc pl nh ns qs rs es where
    1: "s1 = s\<lparr>printer := pr, print_lock := pl, device_connected := dc,
               popups := popups s @ ns, queue := queue s @ qs, outcomes := rs,
               io_log := io_log s @ es, next_handle := nh\<rparr>" "list_all is_popup qs"
    unfolding print_frame_def by blast
  from assms(2) obtain pr' dc' pl' nh' ns' qs' rs' es' where
    2: "s2 = s1\<lparr>printer := pr', print_lock := pl', device_connected := dc',
               popups := popups s1 @ ns', queue := queue s1 @ qs', outcomes := rs',
               io_log := io_log s1 @ es', next_handle := nh'\<rparr>" "list_all is_popup qs'"
    unfolding print_frame_def by blast
  show ?thesis
    by (rule print_frameI [where pr = pr' and pl = pl'
          and dc = dc'
          and ns = "ns @ ns'" and qs = "qs @ qs'" and rs = rs' and es = "es @ es'" and nh = nh'])
       (simp_all add: 1 2)
qed

lemma print_frame_job: "job_frame p s s' \<Longrightarrow> print_frame s s'"
proof -
  assume "job_frame p s s'"
  then obtain ns rs es where
    1: "s' = s\<lparr>popups := popups s @ ns, outcomes := rs, io_log := io_log s @ es\<rparr>"
    unfolding job_frame_def by blast
  show ?thesis
    by (rule print_frameI [where pr = "printer s" and pl = "print_lock s"
          and dc = "device_connected s"
          and ns = ns and qs = "[]" and rs = rs and es = es and nh = "next_handle s"]) (simp_all add: 1)
qed

lemma print_frame_lock: "print_frame s (s\<lparr>print_lock := b\<rparr>)"
  by (rule print_frameI [where pr = "printer s" and pl = b
          and dc = "device_connected s"
          and ns = "[]" and qs = "[]" and rs = "outcomes s" and es = "[]" and nh = "next_handle s"]) simp_all

lemma print_frame_popup: "print_frame s (make_popup t m k s)"
  by (rule print_frameI [where pr = "printer s" and pl = "print_lock s"
          and dc = "device_connected s"
          and ns = "[(t, m, k)]" and qs = "[]" and rs = "outcomes s" and es = "[]" and nh = "next_handle s"]) (simp_all add: make_popup_def)

lemma print_frame_ext_call: "print_frame s (snd (ext_call c s))"
proof (cases "outcomes s")
  case Nil
  show ?thesis
    by (rule print_frameI [where pr = "printer s" and pl = "print_lock s"
          and dc = "device_connected s"
          and ns = "[]" and qs = "[]" and rs = "[]" and es = "[(c, Ok)]" and nh = "next_handle s"]) (simp_all add: ext_call_def Nil)
next
  case (Cons r rs)
  show ?thesis
    by (rule print_frameI [where pr = "printer s" and pl = "print_lock s"
          and dc = "device_connected s"
          and ns = "[]" and qs = "[]" and rs = rs and es = "[(c, r)]" and nh = "next_handle s"]) (simp_all add: ext_call_def Cons)
qed

lemma print_frame_handle: "print_frame s (s\<lparr>printer := pr\<rparr>)"
  by (rule print_frameI [where pr = pr and pl = "print_lock s"
          and dc = "device_connected s"
          and ns = "[]" and qs = "[]" and rs = "outcomes s" and es = "[]" and nh = "next_handle s"]) simp_all

lemma print_frame_status: "print_frame s (s\<lparr>device_connected := dc\<rparr>)"
  by (rule print_frameI [where pr = "printer s" and pl = "print_lock s"
          and dc = dc
          and ns = "[]" and qs = "[]" and rs = "outcomes s" and es = "[]" and nh = "next_handle s"]) simp_all

lemma print_frame_next: "print_frame s (s\<lparr>next_handle := n\<rparr>)"
  by (rule print_frameI [where pr = "printer s" and pl = "print_lock s"
          and dc = "device_connected s"
          and ns = "[]" and qs = "[]" and rs = "outcomes s" and es = "[]" and nh = n]) simp_all

lemma print_frame_after_popup: "print_frame s (after (Popup t m k) s)"
  by (rule print_frameI [where pr = "printer s" and pl = "print_lock s"
          and dc = "device_connected s"
          and ns = "[]" and qs = "[Popup t m k]" and rs = "outcomes s" and es = "[]" and nh = "next_handle s"]) (simp_all add: after_def is_popup_def)

lemma print_frame_set_device_status: "print_frame s (set_device_status b s)"
proof (cases "b \<or> printer s = None")
  case True
  then show ?thesis
    by (auto simp: set_device_status_def Let_def print_frame_status)
next
  case False
  then obtain h where h: "printer s = Some h" and b: "\<not> b" by auto
  let ?s1 = "s\<lparr>device_connected := False\<rparr>"
  have "print_frame s ?s1" by (rule print_frame_status)
  moreover have "print_frame ?s1 (snd (ext_call (PrinterClose h) ?s1))"
    by (rule print_frame_ext_call)
  moreover have "print_frame (snd (ext_call (PrinterClose h) ?s1))
      ((snd (ext_call (PrinterClose h) ?s1))\<lparr>printer := None\<rparr>)"
    by (rule print_frame_handle)
  ultimately have "print_frame s ((snd (ext_call (PrinterClose h) ?s1))\<lparr>printer := None\<rparr>)"
    using print_frame_trans by blast
  then show ?thesis using h b by (simp add: set_device_status_def Let_def)
qed

lemma print_frame_connect: "print_frame s (snd (connect_printer s))"
proof (cases "printer s")
  case (Some h)
  then show ?thesis by (simp add: connect_printer_def print_frame_refl)
next
  case None
  let ?c = "UsbNew (next_handle s) (get_vendor_id (config s)) (get_product_id (config s))
              (get_interface (config s))"
  obtain r s1 where e: "ext_call ?c s = (r, s1)" by (cases "ext_call ?c s")
  have 1: "print_frame s s1" using print_frame_ext_call [of s ?c] e by simp
  show ?thesis
  proof (cases r)
    case Ok
    let ?s2 = "s1\<lparr>printer := Some (next_handle s1), next_handle := Suc (next_handle s1)\<rparr>"
    have "print_frame s1 (s1\<lparr>printer := Some (next_handle s1)\<rparr>)"
      by (rule print_frame_handle)
    moreover have "print_frame (s1\<lparr>printer := Some (next_handle s1)\<rparr>) ?s2"
      using print_frame_next [of "s1\<lparr>printer := Some (next_handle s1)\<rparr>" "Suc (next_handle s1)"]
      by simp
    moreover have "print_frame ?s2 (set_device_status True ?s2)"
      by (rule print_frame_set_device_status)
    ultimately have "print_frame s (set_device_status True ?s2)"
      using 1 print_frame_trans by blast
    then show ?thesis using None e Ok by (simp add: connect_printer_def)
  next
    case (Raises m)
    let ?e = "Popup ''Connection Error'' (''Gagal terhubung ke printer:'' @ [CHR 0x0A] @ m) ''error''"
    have "print_frame s1 (after ?e s1)" by (rule print_frame_after_popup)
    moreover have "print_frame (after ?e s1) ((after ?e s1)\<lparr>printer := None\<rparr>)"
      by (rule print_frame_handle)
    ultimately have "print_frame s ((after ?e s1)\<lparr>printer := None\<rparr>)"
      using 1 print_frame_trans by blast
    then show ?thesis using None e Raises by (simp add: connect_printer_def)
  qed
qed

lemma connect_printer_handle:
  "connect_printer s = (True, s1) \<Longrightarrow> printer s1 \<noteq> None"
  by (auto simp: connect_printer_def set_device_status_def Let_def
      split: option.splits prod.splits outcome.splits)

lemma print_frame_print_job:
  assumes "\<And>s1 p. printer s1 = Some p \<Longrightarrow> framed p (receipt s1)"
  shows "print_frame s (print_job receipt s)"
proof (cases "print_lock s")
  case True
  have "print_frame s (s\<lparr>popups := popups s @ [busy_notice]\<rparr>)"
    using print_frame_popup [of s "fst busy_notice" "fst (snd busy_notice)" "snd (snd busy_notice)"]
    by (simp add: make_popup_def)
  with True show ?thesis by (simp add: print_job_def)
next
  case False
  let ?s0 = "s\<lparr>print_lock := True\<rparr>"
  obtain ok s1 where c: "connect_printer ?s0 = (ok, s1)" by (cases "connect_printer ?s0")
  have 0: "print_frame s ?s0" by (rule print_frame_lock)
  have 1: "print_frame ?s0 s1" using print_frame_connect [of ?s0] c by simp
  obtain raised s2 where
    r: "(case connect_printer ?s0 of (False, s1) \<Rightarrow> (None, s1) | (True, s1) \<Rightarrow> receipt s1 s1)
        = (raised, s2)"
    by (cases "(case connect_printer ?s0 of (False, s1) \<Rightarrow> (None, s1)
                | (True, s1) \<Rightarrow> receipt s1 s1)")
  have 2: "print_frame s1 s2"
  proof (cases ok)
    case True
    with c have "connect_printer ?s0 = (True, s1)" by simp
    from connect_printer_handle [OF this] obtain p where p: "printer s1 = Some p" by auto
    from assms [OF p] have "job_frame p s1 (snd (receipt s1 s1))" by (simp add: framed_def)
    moreover from r c True have "s2 = snd (receipt s1 s1)" by simp
    ultimately show ?thesis using print_frame_job by blast
  next
    case False
    with r c have "s2 = s1" by simp
    then show ?thesis by (simp add: print_frame_refl)
  qed
  let ?s3 = "case raised of None \<Rightarrow> s2
             | Some m \<Rightarrow> make_popup ''Print Error'' (''Gagal mencetak:'' @ nl @ m) ''error'' s2"
  have 3: "print_frame s2 ?s3"
    by (cases raised) (simp_all add: print_frame_refl print_frame_popup)
  have 4: "print_frame ?s3 (?s3\<lparr>print_lock := False\<rparr>)" by (rule print_frame_lock)
  have "print_frame s (?s3\<lparr>print_lock := False\<rparr>)"
    using 0 1 2 3 4 print_frame_trans by blast
  moreover have "print_job receipt s = ?s3\<lparr>print_lock := False\<rparr>"
    using False r by (simp add: print_job_def Let_def)
  ultimately show ?thesis by simp
qed

lemma print_frame_print_count: "print_frame s (print_count s)"
  unfolding print_count_def
  by (rule print_frame_print_job) (simp add: framed_count_receipt)

lemma print_frame_test_print: "print_frame s (test_print s)"
  unfolding test_print_def
  by (rule print_frame_print_job) (simp add: framed_test_receipt)

section \<open>Connection handles\<close>

lemma open_handles_append: "open_handles (xs @ ys) = foldl track (open_handles xs) ys"
  by (simp add: open_handles_def)

lemma track_cmds: "list_all (cmd_to p) es \<Longrightarrow> foldl track H es = H"
  by (induction es arbitrary: H)
     (auto simp: cmd_to_def track_def split: io_call.splits prod.splits)

lemma handles_ok_job_frame:
  assumes "handles_ok s" and "job_frame p s s'"
  shows "handles_ok s'"
proof -
  from assms(2) obtain ns rs es where
    1: "s' = s\<lparr>popups := popups s @ ns, outcomes := rs, io_log := io_log s @ es\<rparr>"
       "list_all (cmd_to p) es"
    unfolding job_frame_def by blast
  show ?thesis
    using assms(1) 1 by (simp add: handles_ok_def open_handles_append track_cmds)
qed

lemma handles_ok_set_device_status:
  assumes "handles_ok s"
  shows "handles_ok (set_device_status b s)"
proof (cases "b \<or> printer s = None")
  case True
  with assms show ?thesis
    by (auto simp: set_device_status_def Let_def handles_ok_def)
next
  case False
  then obtain h where h: "printer s = Some h" and b: "\<not> b" by auto
  with assms show ?thesis
    by (cases "outcomes s")
       (simp_all add: set_device_status_def Let_def handles_ok_def ext_call_def
          open_handles_append track_def)
qed

lemma handles_ok_connect:
  assumes "handles_ok s"
  shows "handles_ok (snd (connect_printer s))"
proof (cases "printer s")
  case (Some h)
  with assms show ?thesis by (simp add: connect_printer_def)
next
  case None
  let ?c = "UsbNew (next_handle s) (get_vendor_id (config s)) (get_product_id (config s))
              (get_interface (config s))"
  obtain r s1 where e: "ext_call ?c s = (r, s1)" by (cases "ext_call ?c s")
  then have s1: "io_log s1 = io_log s @ [(?c, r)]" "printer s1 = None"
    "next_handle s1 = next_handle s"
    using None by (auto simp: ext_call_def split: list.splits)
  show ?thesis
  proof (cases r)
    case Ok
    let ?s2 = "s1\<lparr>printer := Some (next_handle s1), next_handle := Suc (next_handle s1)\<rparr>"
    have "handles_ok ?s2"
      using assms None s1 Ok
      by (simp add: handles_ok_def open_handles_append track_def)
    then have "handles_ok (set_device_status True ?s2)"
      by (rule handles_ok_set_device_status)
    then show ?thesis using None e Ok by (simp add: connect_printer_def)
  next
    case (Raises m)
    have "handles_ok s1"
      using assms None s1 Raises
      by (simp add: handles_ok_def open_handles_append track_def)
    then show ?thesis using None e Raises s1
      by (simp add: connect_printer_def after_def handles_ok_def)
  qed
qed

lemma handles_ok_lock [simp]: "handles_ok (s\<lparr>print_lock := b\<rparr>) = handles_ok s"
  by (simp add: handles_ok_def)

lemma handles_ok_popup [simp]: "handles_ok (make_popup t m k s) = handles_ok s"
  by (simp add: handles_ok_def make_popup_def)

lemma handles_ok_print_job:
  assumes ok: "handles_ok s"
    and fr: "\<And>s1 p. printer s1 = Some p \<Longrightarrow> framed p (receipt s1)"
  shows "handles_ok (print_job receipt s)"
proof (cases "print_lock s")
  case True
  with ok show ?thesis by (simp add: print_job_def handles_ok_def)
next
  case False
  let ?s0 = "s\<lparr>print_lock := True\<rparr>"
  obtain c s1 where c: "connect_printer ?s0 = (c, s1)" by (cases "connect_printer ?s0")
  have 1: "handles_ok s1" using handles_ok_connect [of ?s0] ok c by simp
  obtain raised s2 where
    r: "(case connect_printer ?s0 of (False, s1) \<Rightarrow> (None, s1) | (True, s1) \<Rightarrow> receipt s1 s1)
        = (raised, s2)"
    by (cases "(case connect_printer ?s0 of (False, s1) \<Rightarrow> (None, s1)
                | (True, s1) \<Rightarrow> receipt s1 s1)")
  have 2: "handles_ok s2"
  proof (cases c)
    case True
    with c have "connect_printer ?s0 = (True, s1)" by simp
    from connect_printer_handle [OF this] obtain p where p: "printer s1 = Some p" by auto
    from fr [OF p] have "job_frame p s1 (snd (receipt s1 s1))" by (simp add: framed_def)
    moreover from r c True have "s2 = snd (receipt s1 s1)" by simp
    ultimately show ?thesis using 1 handles_ok_job_frame by blast
  next
    case False
    with r c 1 show ?thesis by simp
  qed
  let ?s3 = "case raised of None \<Rightarrow> s2
             | Some m \<Rightarrow> make_popup ''Print Error'' (''Gagal mencetak:'' @ nl @ m) ''error'' s2"
  have 3: "handles_ok ?s3" using 2 by (cases raised) simp_all
  have "print_job receipt s = ?s3\<lparr>print_lock := False\<rparr>"
    using False r by (simp add: print_job_def Let_def)
  with 3 show ?thesis by simp
qed

lemma handles_ok_print_count: "handles_ok s \<Longrightarrow> handles_ok (print_count s)"
  unfolding print_count_def
  by (rule handles_ok_print_job) (simp_all add: framed_count_receipt)

lemma handles_ok_test_print: "handles_ok s \<Longrightarrow> handles_ok (test_print s)"
  unfolding test_print_def
  by (rule handles_ok_print_job) (simp_all add: framed_test_receipt)

lemma handles_ok_save_config_file:
  "handles_ok s \<Longrightarrow> handles_ok (snd (save_config_file s))"
  by (auto simp: save_config_file_def ext_call_def handles_ok_def open_handles_append track_def
      Let_def split: list.splits outcome.splits prod.splits)

lemma handles_ok_save_settings:
  assumes "handles_ok s"
  shows "handles_ok (save_settings v p i s)"
proof (cases "hex_text_ok v \<and> hex_text_ok p \<and> int_text_ok i")
  case False
  from rejected_cases [OF False, of s] obtain notice where
    "save_settings v p i s = s\<lparr>popups := popups s @ [notice]\<rparr>" ..
  with assms show ?thesis by (simp add: handles_ok_def)
next
  case True
  then obtain a b n where
    p: "py_int 16 (with_prefix (py_strip v)) = Some a"
       "py_int 16 (with_prefix (py_strip p)) = Some b"
       "py_int 10 (py_strip i) = Some n"
    by (auto simp: hex_text_ok_def int_text_ok_def)
  let ?s1 = "s\<lparr>config := dict_set (dict_set (dict_set (config s)
               ''vendor_id'' (JStr (with_prefix (py_strip v))))
               ''product_id'' (JStr (with_prefix (py_strip p))))
               ''interface'' (JInt n)\<rparr>"
  let ?s2 = "case printer ?s1 of None \<Rightarrow> ?s1
             | Some h \<Rightarrow> (snd (ext_call (PrinterClose h) ?s1))\<lparr>printer := None\<rparr>"
  have 1: "handles_ok ?s1" using assms by (simp add: handles_ok_def)
  have 2: "handles_ok ?s2"
    using 1
    by (cases "printer s"; cases "outcomes s")
       (simp_all add: handles_ok_def ext_call_def open_handles_append track_def)
  have 3: "handles_ok (snd (save_config_file ?s2))"
    using 2 by (rule handles_ok_save_config_file)
  have "save_settings v p i s =
      (case save_config_file ?s2 of
         (True, s3) \<Rightarrow> make_popup ''Success'' ''Konfigurasi berhasil disimpan.'' ''success'' s3
       | (False, s3) \<Rightarrow> make_popup ''Error'' ''Gagal menyimpan konfigurasi.'' ''error'' s3)"
    using p by (simp add: save_settings_def Let_def)
  with 3 show ?thesis
    by (cases "save_config_file ?s2") (auto split: bool.splits)
qed

lemma worker_step_keeps:
  "printer (worker_step k s) = printer s \<and> io_log (worker_step k s) = io_log s \<and>
   next_handle (worker_step k s) = next_handle s \<and> counter (worker_step k s) = counter s \<and>
   popups (worker_step k s) = popups s \<and> dispatched (worker_step k s) = dispatched s \<and>
   print_lock (worker_step k s) = print_lock s \<and> config (worker_step k s) = config s \<and>
   config_file (worker_step k s) = config_file s \<and>
   stopped_by_user (worker_step k s) = stopped_by_user s \<and>
   auto_max_count (worker_step k s) = auto_max_count s \<and>
   auto_interval (worker_step k s) = auto_interval s \<and>
   length (workers (worker_step k s)) = length (workers s)"
  by (simp add: worker_step_def put_worker_def after_def Let_def split: pc.splits option.splits)

lemma handles_ok_worker_step: "handles_ok s \<Longrightarrow> handles_ok (worker_step k s)"
  using worker_step_keeps [of k s] by (simp add: handles_ok_def)

lemma handles_ok_run_event: "handles_ok s \<Longrightarrow> handles_ok (run_event e s)"
proof (cases e)
  case PrintAndReset
  assume "handles_ok s"
  then have "handles_ok (print_count s)" by (rule handles_ok_print_count)
  then show ?thesis using PrintAndReset
    by (simp add: print_and_reset_def safe_print_call_def handles_ok_def)
qed (simp_all add: set_counter_from_thread_def auto_cleanup_ui_def handles_ok_def [of "s\<lparr>counter := _\<rparr>"]
      handles_ok_set_device_status handles_ok_print_count handles_ok_test_print,
     simp add: handles_ok_def)

lemma handles_ok_dispatch: "handles_ok s \<Longrightarrow> handles_ok (dispatch s)"
proof (cases "queue s")
  case Nil
  assume "handles_ok s"
  with Nil show ?thesis by (simp add: dispatch_def)
next
  case (Cons e q)
  assume "handles_ok s"
  then have "handles_ok (s\<lparr>queue := q, dispatched := dispatched s @ [e]\<rparr>)"
    by (simp add: handles_ok_def)
  then show ?thesis using Cons by (simp add: dispatch_def handles_ok_run_event)
qed

lemma handles_ok_run_click: "handles_ok s \<Longrightarrow> handles_ok (run_click c s)"
proof (cases c)
  case ManualAdd
  assume "handles_ok s" with ManualAdd show ?thesis
    by (simp add: manual_add_def handles_ok_def)
next
  case ResetCounter
  assume "handles_ok s" with ResetCounter show ?thesis
    by (simp add: reset_counter_def handles_ok_def)
next
  case (ToggleAuto m i)
  assume "handles_ok s" with ToggleAuto show ?thesis
    by (simp add: toggle_auto_def handles_ok_def)
next
  case PrintNow
  assume "handles_ok s" with PrintNow show ?thesis
    by (simp add: safe_print_call_def handles_ok_print_count)
next
  case TestNow
  assume "handles_ok s" with TestNow show ?thesis
    by (simp add: safe_test_print_call_def handles_ok_test_print)
next
  case (SaveSettings v p i)
  assume "handles_ok s" with SaveSettings show ?thesis
    by (simp add: handles_ok_save_settings)
qed

lemma handles_ok_step: "handles_ok s \<Longrightarrow> handles_ok (step a s)"
  by (cases a)
     (simp_all add: handles_ok_worker_step handles_ok_dispatch handles_ok_run_click,
      simp add: after_def handles_ok_def)

lemma handles_ok_exec: "handles_ok s \<Longrightarrow> handles_ok (exec sched s)"
  by (induction sched arbitrary: s) (simp_all add: handles_ok_step)

lemma handles_ok_init: "PrinterApp_init f orc clk = Some s \<Longrightarrow> handles_ok s"
  by (auto simp: PrinterApp_init_def handles_ok_def open_handles_def split: json.splits)

lemma handles_ok_card: "handles_ok s \<Longrightarrow> card (open_handles (io_log s)) \<le> 1"
  by (cases "printer s") (simp_all add: handles_ok_def)

lemma print_job_reconnects:
  assumes none: "printer s = None" and free: "\<not> print_lock s"
    and fr: "\<And>s1 p. printer s1 = Some p \<Longrightarrow> framed p (receipt s1)"
  shows "\<exists>r rest. io_log (print_job receipt s) =
           io_log s @ (UsbNew (next_handle s) (get_vendor_id (config s))
                         (get_product_id (config s)) (get_interface (config s)), r) # rest \<and>
           list_all (cmd_to (next_handle s)) rest"
proof -
  let ?s0 = "s\<lparr>print_lock := True\<rparr>"
  let ?c = "UsbNew (next_handle s) (get_vendor_id (config s)) (get_product_id (config s))
              (get_interface (config s))"
  obtain r s1 where e: "ext_call ?c ?s0 = (r, s1)" by (cases "ext_call ?c ?s0")
  then have s1: "io_log s1 = io_log s @ [(?c, r)]" "next_handle s1 = next_handle s"
    by (auto simp: ext_call_def split: list.splits)
  show ?thesis
  proof (cases r)
    case (Raises m)
    have "io_log (print_job receipt s) = io_log s @ [(?c, r)]"
      using none free e Raises s1
      by (simp add: print_job_def connect_printer_def after_def)
    then show ?thesis by simp
  next
    case Ok
    let ?s2 = "set_device_status True
                 (s1\<lparr>printer := Some (next_handle s1), next_handle := Suc (next_handle s1)\<rparr>)"
    have c: "connect_printer ?s0 = (True, ?s2)"
      using none e Ok by (simp add: connect_printer_def)
    have p: "printer ?s2 = Some (next_handle s)" and l: "io_log ?s2 = io_log s @ [(?c, r)]"
      using s1 by (simp_all add: set_device_status_def)
    from fr [OF p] have "job_frame (next_handle s) ?s2 (snd (receipt ?s2 ?s2))"
      by (simp add: framed_def)
    then obtain ns rs es where
      j: "snd (receipt ?s2 ?s2) =
            ?s2\<lparr>popups := popups ?s2 @ ns, outcomes := rs, io_log := io_log ?s2 @ es\<rparr>"
         "list_all (cmd_to (next_handle s)) es"
      unfolding job_frame_def by blast
    obtain raised s3 where rc: "receipt ?s2 ?s2 = (raised, s3)" by (cases "receipt ?s2 ?s2")
    with j have s3: "io_log s3 = io_log s @ (?c, r) # es" using l by simp
    have "io_log (print_job receipt s) = io_log s3"
      using free c rc by (cases raised) (simp_all add: print_job_def make_popup_def)
    with s3 j(2) show ?thesis by simp
  qed
qed

text \<open>
  C9. When the presence monitor reports the device gone while the application holds a
  handle \<open>h\<close>, \<open>_set_device_status\<close> calls \<^verbatim>\<open>close\<close> on \<open>h\<close> once, shows nothing whether \<^verbatim>\<open>close\<close>
  returned or raised, and leaves the application without a handle. The next
  \<open>print_count\<close> or \<open>test_print\<close> (the print lock being free) then starts with a call of the
  constructor \<^verbatim>\<open>Usb\<close>, which issues a handle other than \<open>h\<close>, and every printer command it
  sends goes to that new handle. At most one handle is open at any time: from the start
  of the application, and from any state where the open handles are the one the
  application holds, this stays so along every schedule.
\<close>

theorem stale_handle_discarded:
  assumes "handles_ok s" and "printer s = Some h"
  shows "printer (set_device_status False s) = None \<and>
         \<not> device_connected (set_device_status False s) \<and>
         (\<exists>r. io_log (set_device_status False s) = io_log s @ [(PrinterClose h, r)]) \<and>
         popups (set_device_status False s) = popups s \<and>
         queue (set_device_status False s) = queue s \<and>
         h \<noteq> next_handle s \<and>
         (\<not> print_lock s \<longrightarrow>
            (\<exists>r rest. io_log (print_count (set_device_status False s)) =
                io_log (set_device_status False s) @
                  (UsbNew (next_handle s) (get_vendor_id (config s))
                     (get_product_id (config s)) (get_interface (config s)), r) # rest \<and>
                list_all (cmd_to (next_handle s)) rest) \<and>
            (\<exists>r rest. io_log (test_print (set_device_status False s)) =
                io_log (set_device_status False s) @
                  (UsbNew (next_handle s) (get_vendor_id (config s))
                     (get_product_id (config s)) (get_interface (config s)), r) # rest \<and>
                list_all (cmd_to (next_handle s)) rest)) \<and>
         handles_ok (exec sched s) \<and>
         card (open_handles (io_log (exec sched s))) \<le> 1 \<and>
         (\<forall>s0. PrinterApp_init f orc clk = Some s0 \<longrightarrow>
               card (open_handles (io_log (exec sched s0))) \<le> 1)"
proof -
  let ?s1 = "set_device_status False s"
  have fields: "printer ?s1 = None" "\<not> device_connected ?s1"
    "\<exists>r. io_log ?s1 = io_log s @ [(PrinterClose h, r)]"
    "popups ?s1 = popups s" "queue ?s1 = queue s"
    "next_handle ?s1 = next_handle s" "config ?s1 = config s" "print_lock ?s1 = print_lock s"
    using assms(2)
    by (cases "outcomes s"; simp add: set_device_status_def Let_def ext_call_def)+
  have fresh: "h \<noteq> next_handle s"
    using assms by (auto simp: handles_ok_def)
  have reconnect: "\<not> print_lock s \<longrightarrow>
      (\<exists>r rest. io_log (print_count ?s1) =
          io_log ?s1 @ (UsbNew (next_handle s) (get_vendor_id (config s))
                          (get_product_id (config s)) (get_interface (config s)), r) # rest \<and>
          list_all (cmd_to (next_handle s)) rest) \<and>
      (\<exists>r rest. io_log (test_print ?s1) =
          io_log ?s1 @ (UsbNew (next_handle s) (get_vendor_id (config s))
                          (get_product_id (config s)) (get_interface (config s)), r) # rest \<and>
          list_all (cmd_to (next_handle s)) rest)"
  proof
    assume "\<not> print_lock s"
    then have free: "\<not> print_lock ?s1" using fields(8) by simp
    have a: "\<exists>r rest. io_log (print_count ?s1) =
          io_log ?s1 @ (UsbNew (next_handle s) (get_vendor_id (config s))
                          (get_product_id (config s)) (get_interface (config s)), r) # rest \<and>
          list_all (cmd_to (next_handle s)) rest"
      using print_job_reconnects [of ?s1 count_receipt, OF fields(1) free]
        framed_count_receipt fields(6,7)
      by (simp add: print_count_def)
    have b: "\<exists>r rest. io_log (test_print ?s1) =
          io_log ?s1 @ (UsbNew (next_handle s) (get_vendor_id (config s))
                          (get_product_id (config s)) (get_interface (config s)), r) # rest \<and>
          list_all (cmd_to (next_handle s)) rest"
      using print_job_reconnects [of ?s1 test_receipt, OF fields(1) free]
        framed_test_receipt fields(6,7)
      by (simp add: test_print_def)
    from a b show "(\<exists>r rest. io_log (print_count ?s1) =
          io_log ?s1 @ (UsbNew (next_handle s) (get_vendor_id (config s))
                          (get_product_id (config s)) (get_interface (config s)), r) # rest \<and>
          list_all (cmd_to (next_handle s)) rest) \<and>
      (\<exists>r rest. io_log (test_print ?s1) =
          io_log ?s1 @ (UsbNew (next_handle s) (get_vendor_id (config s))
                          (get_product_id (config s)) (get_interface (config s)), r) # rest \<and>
          list_all (cmd_to (next_handle s)) rest)" ..
  qed
  have inv: "handles_ok (exec sched s)"
    using assms(1) by (rule handles_ok_exec)
  have one: "card (open_handles (io_log (exec sched s))) \<le> 1"
    using inv by (rule handles_ok_card)
  have start: "\<forall>s0. PrinterApp_init f orc clk = Some s0 \<longrightarrow>
      card (open_handles (io_log (exec sched s0))) \<le> 1"
    using handles_ok_init handles_ok_exec handles_ok_card by blast
  from fields(1-5) fresh reconnect inv one start show ?thesis by blast
qed

lemma fresh_handles_ok: "handles_ok (fresh orc)"
  using handles_ok_init [OF init_fresh] .

lemma connected_app_printer: "printer connected_app = Some 0"
  by (simp add: connected_app_def fresh_def print_defs job_defs text_defs Let_def)

lemma connected_app_log:
  "io_log (exec [Probe False, Dispatch] connected_app) =
     io_log connected_app @ [(PrinterClose 0, Raises ''device gone'')]"
  by (simp add: connected_app_def fresh_def dispatch_def print_defs job_defs text_defs Let_def)

lemma connected_app_reprint:
  "printer (exec [Probe False, Dispatch, Click PrintNow] connected_app) = Some 1"
  by (simp add: connected_app_def fresh_def dispatch_def safe_print_call_def
      print_defs job_defs text_defs Let_def)

theorem stale_handle_discarded_witness:
  "handles_ok connected_app \<and> printer connected_app = Some 0 \<and>
   printer (set_device_status False connected_app) = None \<and>
   popups (set_device_status False connected_app) = popups connected_app \<and>
   io_log (exec [Probe False, Dispatch] connected_app) =
     io_log connected_app @ [(PrinterClose 0, Raises ''device gone'')] \<and>
   printer (exec [Probe False, Dispatch, Click PrintNow] connected_app) = Some 1 \<and>
   card (open_handles (io_log (exec [Probe False, Dispatch, Click PrintNow] connected_app))) \<le> 1"
proof -
  have ok: "handles_ok connected_app"
    using handles_ok_print_count [OF fresh_handles_ok, of "[]"]
    by (simp add: connected_app_def handles_ok_def)
  from stale_handle_discarded [OF ok connected_app_printer,
      of "[Probe False, Dispatch, Click PrintNow]"]
  have "printer (set_device_status False connected_app) = None"
    and "popups (set_device_status False connected_app) = popups connected_app"
    and "card (open_handles (io_log (exec [Probe False, Dispatch, Click PrintNow] connected_app)))
           \<le> 1"
    by blast+
  with ok connected_app_printer connected_app_log connected_app_reprint show ?thesis
    by blast
qed

section \<open>The auto run\<close>

lemma main_frame_refl: "main_frame s s"
  by (simp add: main_frame_def)

lemma main_frame_print:
  assumes "print_frame s s'"
  shows "main_frame s s'" and "counter s' = counter s"
proof -
  from assms obtain pr dc pl nh ns qs rs es where
    1: "s' = s\<lparr>printer := pr, print_lock := pl, device_connected := dc,
               popups := popups s @ ns, queue := queue s @ qs, outcomes := rs,
               io_log := io_log s @ es, next_handle := nh\<rparr>" "list_all is_popup qs"
    unfolding print_frame_def by blast
  show "main_frame s s'" using 1 by (simp add: main_frame_def)
  show "counter s' = counter s" using 1 by simp
qed

lemma save_config_file_keeps:
  "main_frame s (snd (save_config_file s)) \<and>
   counter (snd (save_config_file s)) = counter s"
  by (auto simp: save_config_file_def ext_call_def main_frame_def Let_def
      split: list.splits outcome.splits prod.splits)

lemma main_frame_save_settings:
  "main_frame s (save_settings v p i s) \<and> counter (save_settings v p i s) = counter s"
proof (cases "hex_text_ok v \<and> hex_text_ok p \<and> int_text_ok i")
  case False
  from rejected_cases [OF False, of s] obtain notice where
    "save_settings v p i s = s\<lparr>popups := popups s @ [notice]\<rparr>" ..
  then show ?thesis by (simp add: main_frame_def)
next
  case True
  then obtain a b n where
    p: "py_int 16 (with_prefix (py_strip v)) = Some a"
       "py_int 16 (with_prefix (py_strip p)) = Some b"
       "py_int 10 (py_strip i) = Some n"
    by (auto simp: hex_text_ok_def int_text_ok_def)
  let ?s1 = "s\<lparr>config := dict_set (dict_set (dict_set (config s)
               ''vendor_id'' (JStr (with_prefix (py_strip v))))
               ''product_id'' (JStr (with_prefix (py_strip p))))
               ''interface'' (JInt n)\<rparr>"
  let ?s2 = "case printer ?s1 of None \<Rightarrow> ?s1
             | Some h \<Rightarrow> (snd (ext_call (PrinterClose h) ?s1))\<lparr>printer := None\<rparr>"
  have 2: "main_frame s ?s2 \<and> counter ?s2 = counter s"
    by (cases "printer s"; cases "outcomes s") (simp_all add: main_frame_def ext_call_def)
  have 3: "main_frame ?s2 (snd (save_config_file ?s2)) \<and>
           counter (snd (save_config_file ?s2)) = counter ?s2"
    by (rule save_config_file_keeps)
  have 4: "main_frame s (snd (save_config_file ?s2)) \<and>
           counter (snd (save_config_file ?s2)) = counter s"
    using 2 3 by (auto simp: main_frame_def)
  have "save_settings v p i s =
      (case save_config_file ?s2 of
         (True, s3) \<Rightarrow> make_popup ''Success'' ''Konfigurasi berhasil disimpan.'' ''success'' s3
       | (False, s3) \<Rightarrow> make_popup ''Error'' ''Gagal menyimpan konfigurasi.'' ''error'' s3)"
    using p by (simp add: save_settings_def Let_def)
  with 4 show ?thesis
    by (cases "save_config_file ?s2") (auto simp: main_frame_def make_popup_def split: bool.splits)
qed

lemma main_frame_run_event: "main_frame s (run_event e s)"
proof (cases e)
  case PrintAndReset
  have "main_frame s (print_count s)"
    using print_frame_print_count main_frame_print(1) by blast
  then show ?thesis using PrintAndReset
    by (simp add: print_and_reset_def safe_print_call_def main_frame_def)
next
  case (DeviceStatus b)
  then show ?thesis
    using print_frame_set_device_status [of s b] main_frame_print(1) by simp
next
  case PrintCount
  then show ?thesis using print_frame_print_count [of s] main_frame_print(1) by simp
next
  case TestPrint
  then show ?thesis using print_frame_test_print [of s] main_frame_print(1) by simp
qed (simp_all add: main_frame_def set_counter_from_thread_def auto_cleanup_ui_def make_popup_def)

lemma run_event_counter:
  "counter (run_event e s) =
     (case e of SetCounter v m \<Rightarrow> v | PrintAndReset \<Rightarrow> 0 | _ \<Rightarrow> counter s)"
proof (cases e)
  case (DeviceStatus b)
  then show ?thesis
    using print_frame_set_device_status [of s b] main_frame_print(2) by simp
next
  case PrintCount
  then show ?thesis using print_frame_print_count [of s] main_frame_print(2) by simp
next
  case TestPrint
  then show ?thesis using print_frame_test_print [of s] main_frame_print(2) by simp
qed (simp_all add: set_counter_from_thread_def auto_cleanup_ui_def make_popup_def
      print_and_reset_def)

lemma main_frame_run_click:
  "\<not> is_toggle (Click c) \<Longrightarrow> main_frame s (run_click c s)"
proof (cases c)
  case PrintNow
  then show ?thesis
    using print_frame_print_count [of s] main_frame_print(1)
    by (simp add: safe_print_call_def)
next
  case TestNow
  then show ?thesis
    using print_frame_test_print [of s] main_frame_print(1)
    by (simp add: safe_test_print_call_def)
next
  case (SaveSettings v p i)
  then show ?thesis using main_frame_save_settings [of s v p i] by simp
qed (simp_all add: main_frame_def manual_add_def reset_counter_def is_toggle_def)

lemma popups_no_print: "list_all is_popup qs \<Longrightarrow> filter (\<lambda>e. e = PrintAndReset) qs = []"
  by (induction qs) (auto simp: is_popup_def)

lemma auto_prints_main_frame:
  "main_frame s s' \<Longrightarrow> auto_prints s' = auto_prints s \<and> print_scheduled s' = print_scheduled s"
  by (auto simp: main_frame_def auto_prints_def popups_no_print)

lemma auto_prints_worker_step:
  "(print_scheduled s \<longrightarrow>
      print_scheduled (worker_step k s) \<and> auto_prints (worker_step k s) = auto_prints s) \<and>
   (\<not> print_scheduled s \<longrightarrow>
      (\<not> print_scheduled (worker_step k s) \<and> auto_prints (worker_step k s) = auto_prints s) \<or>
      (print_scheduled (worker_step k s) \<and> auto_prints (worker_step k s) = auto_prints s + 1))"
  by (simp add: worker_step_def put_worker_def after_def auto_prints_def Let_def
      split: pc.splits option.splits)

lemma auto_prints_dispatch:
  "auto_prints (dispatch s) = auto_prints s \<and> print_scheduled (dispatch s) = print_scheduled s"
proof (cases "queue s")
  case Nil
  then show ?thesis by (simp add: dispatch_def)
next
  case (Cons e q)
  let ?m = "s\<lparr>queue := q, dispatched := dispatched s @ [e]\<rparr>"
  have "auto_prints ?m = auto_prints s" "print_scheduled ?m = print_scheduled s"
    using Cons by (simp_all add: auto_prints_def)
  moreover have "main_frame ?m (run_event e ?m)" by (rule main_frame_run_event)
  ultimately show ?thesis
    using Cons auto_prints_main_frame [of ?m "run_event e ?m"] by (simp add: dispatch_def)
qed

lemma auto_prints_step:
  assumes "is_toggle a \<longrightarrow> auto_running s"
  shows "(print_scheduled s \<longrightarrow>
            print_scheduled (step a s) \<and> auto_prints (step a s) = auto_prints s) \<and>
         (\<not> print_scheduled s \<longrightarrow>
            (\<not> print_scheduled (step a s) \<and> auto_prints (step a s) = auto_prints s) \<or>
            (print_scheduled (step a s) \<and> auto_prints (step a s) = auto_prints s + 1))"
proof (cases a)
  case (Worker k)
  then show ?thesis using auto_prints_worker_step [of s k] by simp
next
  case Dispatch
  then show ?thesis using auto_prints_dispatch [of s] by simp
next
  case (Probe b)
  then show ?thesis by (simp add: after_def auto_prints_def)
next
  case (Click c)
  show ?thesis
  proof (cases "is_toggle a")
    case True
    with Click obtain m i where c: "c = ToggleAuto m i"
      by (cases c) (simp_all add: is_toggle_def)
    from True assms have "auto_running s" by simp
    with Click c show ?thesis by (simp add: toggle_auto_def auto_prints_def)
  next
    case False
    with Click have "main_frame s (run_click c s)" by (simp add: main_frame_run_click)
    from auto_prints_main_frame [OF this] Click show ?thesis by simp
  qed
qed

lemma auto_prints_exec:
  "only_stops sched s \<Longrightarrow>
   (print_scheduled s \<longrightarrow>
      print_scheduled (exec sched s) \<and> auto_prints (exec sched s) = auto_prints s) \<and>
   (\<not> print_scheduled s \<longrightarrow>
      (\<not> print_scheduled (exec sched s) \<and> auto_prints (exec sched s) = auto_prints s) \<or>
      (print_scheduled (exec sched s) \<and> auto_prints (exec sched s) = auto_prints s + 1))"
proof (induction sched arbitrary: s)
  case Nil
  then show ?case by simp
next
  case (Cons a sched)
  then have a: "is_toggle a \<longrightarrow> auto_running s" and rest: "only_stops sched (step a s)"
    by simp_all
  from auto_prints_step [OF a] Cons.IH [OF rest] show ?case by auto
qed

text \<open>
  C4. Within one auto run the \<open>print_scheduled\<close> flag lets the completion path schedule
  at most one automatic print. Along every schedule of worker steps, callbacks, probes
  and clicks in which the auto button is only used to stop: once \<open>print_scheduled\<close> is set
  it stays set and no further automatic print is scheduled; from a state where it is not
  set, at most one automatic print is scheduled, and one has been scheduled exactly when
  the flag is set. So a run started by \<open>toggle_auto\<close> schedules at most one automatic
  print, wherever the stop falls among the steps of the worker.
\<close>

theorem at_most_one_automatic_print:
  "(only_stops sched s \<and> print_scheduled s \<longrightarrow>
      print_scheduled (exec sched s) \<and> auto_prints (exec sched s) = auto_prints s) \<and>
   (only_stops sched s \<and> \<not> print_scheduled s \<longrightarrow>
      auto_prints (exec sched s) \<le> auto_prints s + 1 \<and>
      (print_scheduled (exec sched s) \<longleftrightarrow> auto_prints (exec sched s) = auto_prints s + 1)) \<and>
   (\<not> auto_running s0 \<and> only_stops sched (toggle_auto m i s0) \<longrightarrow>
      auto_prints (exec sched (toggle_auto m i s0)) \<le> auto_prints s0 + 1)"
proof -
  have start: "\<not> auto_running s0 \<Longrightarrow>
      \<not> print_scheduled (toggle_auto m i s0) \<and> auto_prints (toggle_auto m i s0) = auto_prints s0"
    by (simp add: toggle_auto_def auto_prints_def)
  show ?thesis
    using auto_prints_exec [of sched s] auto_prints_exec [of sched "toggle_auto m i s0"] start
    by auto
qed

lemma racing_stop_run:
  "only_stops racing_stop (toggle_auto (Some ''2'') (Some ''0.5'') (fresh [])) \<and>
   auto_prints (exec racing_stop (toggle_auto (Some ''2'') (Some ''0.5'') (fresh []))) = 1 \<and>
   dispatched (exec racing_stop (toggle_auto (Some ''2'') (Some ''0.5'') (fresh []))) =
     [SetCounter 1 2, SetCounter 2 2, PrintAndReset, AutoCleanup]"
  by (simp add: racing_stop_def toggle_auto_def read_max_count_def read_interval_def fresh_def
      new_worker_def worker_step_def put_worker_def dispatch_def time_sleep_def is_toggle_def
      auto_prints_def after_def set_counter_from_thread_def print_and_reset_def
      safe_print_call_def auto_cleanup_ui_def print_defs job_defs text_defs float_defs Let_def)

theorem at_most_one_automatic_print_witness:
  "only_stops racing_stop (toggle_auto (Some ''2'') (Some ''0.5'') (fresh [])) \<and>
   print_scheduled (toggle_auto (Some ''2'') (Some ''0.5'') (fresh [])) = False \<and>
   auto_prints (toggle_auto (Some ''2'') (Some ''0.5'') (fresh [])) = 0 \<and>
   auto_prints (exec racing_stop (toggle_auto (Some ''2'') (Some ''0.5'') (fresh []))) = 1 \<and>
   print_scheduled (exec racing_stop (toggle_auto (Some ''2'') (Some ''0.5'') (fresh [])))"
proof -
  let ?s = "toggle_auto (Some ''2'') (Some ''0.5'') (fresh [])"
  have stops: "only_stops racing_stop ?s"
    and one: "auto_prints (exec racing_stop ?s) = 1"
    using racing_stop_run by simp_all
  have unset: "\<not> print_scheduled ?s" and zero: "auto_prints ?s = 0"
    by (simp_all add: toggle_auto_def fresh_def auto_prints_def)
  from at_most_one_automatic_print [of racing_stop ?s] stops unset zero one
  have "print_scheduled (exec racing_stop ?s)" by simp
  with stops unset zero one show ?thesis by simp
qed

lemma stopped_worker_step:
  assumes "\<not> auto_running s" and "k < length (workers s)"
    and "w_pc (workers s ! k) \<noteq> Start"
  shows "\<not> auto_running (worker_step j s) \<and>
         length (workers (worker_step j s)) = length (workers s) \<and>
         w_pc (workers (worker_step j s) ! k) \<noteq> Start \<and>
         reach (workers (worker_step j s) ! k) = reach (workers s ! k) \<and>
         w_max_count (workers (worker_step j s) ! k) = w_max_count (workers s ! k) \<and>
         loop_steps_left (w_pc (workers (worker_step j s) ! k)) \<le>
           loop_steps_left (w_pc (workers s ! k)) - (if j = k then 1 else 0)"
proof (cases "j = k")
  case True
  with assms show ?thesis
    by (simp add: worker_step_def put_worker_def after_def Let_def reach_def
        loop_steps_left_def split: pc.splits option.splits)
next
  case False
  with assms show ?thesis
    by (simp add: worker_step_def put_worker_def after_def Let_def
        split: pc.splits option.splits)
qed

lemma stopped_step:
  assumes "\<not> auto_running s" and "k < length (workers s)"
    and "w_pc (workers s ! k) \<noteq> Start" and "\<not> is_toggle a"
  shows "\<not> auto_running (step a s) \<and>
         k < length (workers (step a s)) \<and>
         w_pc (workers (step a s) ! k) \<noteq> Start \<and>
         reach (workers (step a s) ! k) = reach (workers s ! k) \<and>
         w_max_count (workers (step a s) ! k) = w_max_count (workers s ! k) \<and>
         loop_steps_left (w_pc (workers (step a s) ! k)) \<le>
           loop_steps_left (w_pc (workers s ! k)) - (if a = Worker k then 1 else 0)"
proof (cases a)
  case (Worker j)
  with stopped_worker_step [OF assms(1-3), of j] assms(2) show ?thesis by simp
next
  case Dispatch
  show ?thesis
  proof (cases "queue s")
    case Nil
    with Dispatch assms show ?thesis by (simp add: dispatch_def)
  next
    case (Cons e q)
    let ?m = "s\<lparr>queue := q, dispatched := dispatched s @ [e]\<rparr>"
    have "main_frame ?m (run_event e ?m)" by (rule main_frame_run_event)
    then have "auto_running (run_event e ?m) = auto_running s"
      "workers (run_event e ?m) = workers s"
      by (simp_all add: main_frame_def)
    with Dispatch Cons assms show ?thesis by (simp add: dispatch_def)
  qed
next
  case (Probe b)
  with assms show ?thesis by (simp add: after_def)
next
  case (Click c)
  with assms(4) have "main_frame s (run_click c s)" by (simp add: main_frame_run_click)
  then have "auto_running (run_click c s) = auto_running s"
    "workers (run_click c s) = workers s"
    by (simp_all add: main_frame_def)
  with Click assms show ?thesis by simp
qed

lemma stopped_exec:
  assumes "\<not> auto_running s" and "k < length (workers s)"
    and "w_pc (workers s ! k) \<noteq> Start" and "list_all (\<lambda>a. \<not> is_toggle a) sched"
  shows "\<not> auto_running (exec sched s) \<and>
         k < length (workers (exec sched s)) \<and>
         reach (workers (exec sched s) ! k) = reach (workers s ! k) \<and>
         w_max_count (workers (exec sched s) ! k) = w_max_count (workers s ! k) \<and>
         loop_steps_left (w_pc (workers (exec sched s) ! k)) \<le>
           loop_steps_left (w_pc (workers s ! k)) - count_list sched (Worker k)"
  using assms
proof (induction sched arbitrary: s)
  case Nil
  then show ?case by simp
next
  case (Cons a sched)
  then have a: "\<not> is_toggle a" and rest: "list_all (\<lambda>a. \<not> is_toggle a) sched"
    by simp_all
  note st = stopped_step [OF Cons.prems(1-3) a]
  from st have 1: "\<not> auto_running (step a s)" and 2: "k < length (workers (step a s))"
    and 3: "w_pc (workers (step a s) ! k) \<noteq> Start"
    by simp_all
  from Cons.IH [OF 1 2 3 rest] st show ?case by auto
qed

lemma loop_left: "loop_steps_left p = 0 \<longleftrightarrow> \<not> in_loop p"
  by (simp add: loop_steps_left_def in_loop_def)

lemma reach_bounds: "w_i w \<le> reach w \<and> reach w \<le> w_i w + 1 \<and> (w_pc w \<noteq> Body \<longrightarrow> reach w = w_i w)"
  by (simp add: reach_def)

text \<open>
  C2. A click on the auto button during an active run sets \<open>stopped_by_user\<close> to true and
  \<open>auto_running\<close> to false and changes nothing else: it schedules no print and no other
  callback. After it, along every schedule without another click on the auto button, a
  worker that was in its loop leaves the loop at its next test of the condition, within
  three of its own steps: it publishes at most the count of the iteration it had already
  entered, and no count when it was not in the body, whatever number of counts remained.
\<close>

theorem stop_ends_the_loop:
  assumes "auto_running s" and "k < length (workers s)"
    and "in_loop (w_pc (workers s ! k))" and "list_all (\<lambda>a. \<not> is_toggle a) sched"
  shows "toggle_auto m i s = s\<lparr>stopped_by_user := True, auto_running := False\<rparr> \<and>
         auto_prints (toggle_auto m i s) = auto_prints s \<and>
         \<not> auto_running (exec sched (toggle_auto m i s)) \<and>
         w_i (workers (exec sched (toggle_auto m i s)) ! k) \<le> w_i (workers s ! k) + 1 \<and>
         (w_pc (workers s ! k) \<noteq> Body \<longrightarrow>
            w_i (workers (exec sched (toggle_auto m i s)) ! k) = w_i (workers s ! k)) \<and>
         w_max_count (workers (exec sched (toggle_auto m i s)) ! k) = w_max_count (workers s ! k) \<and>
         (w_i (workers s ! k) + 1 < w_max_count (workers s ! k) \<longrightarrow>
            w_i (workers (exec sched (toggle_auto m i s)) ! k)
              < w_max_count (workers (exec sched (toggle_auto m i s)) ! k)) \<and>
         (loop_steps_left (w_pc (workers s ! k)) \<le> count_list sched (Worker k) \<longrightarrow>
            \<not> in_loop (w_pc (workers (exec sched (toggle_auto m i s)) ! k))) \<and>
         (3 \<le> count_list sched (Worker k) \<longrightarrow>
            \<not> in_loop (w_pc (workers (exec sched (toggle_auto m i s)) ! k)))"
proof -
  let ?s1 = "toggle_auto m i s"
  let ?w = "workers s ! k"
  let ?w' = "workers (exec sched ?s1) ! k"
  have s1: "?s1 = s\<lparr>stopped_by_user := True, auto_running := False\<rparr>"
    using assms(1) by (simp add: toggle_auto_def)
  have ap: "auto_prints ?s1 = auto_prints s"
    by (simp add: s1 auto_prints_def)
  have pre: "\<not> auto_running ?s1" "k < length (workers ?s1)" "w_pc (workers ?s1 ! k) \<noteq> Start"
    using assms(2,3) by (auto simp: s1 in_loop_def)
  note ex = stopped_exec [OF pre assms(4)]
  have w1: "workers ?s1 ! k = ?w" by (simp add: s1)
  from ex w1 have r: "reach ?w' = reach ?w" and mx: "w_max_count ?w' = w_max_count ?w"
    and left: "loop_steps_left (w_pc ?w') \<le> loop_steps_left (w_pc ?w) - count_list sched (Worker k)"
    and off: "\<not> auto_running (exec sched ?s1)"
    by simp_all
  have i1: "w_i ?w' \<le> w_i ?w + 1"
    using r reach_bounds [of ?w] reach_bounds [of ?w'] by linarith
  have i2: "w_pc ?w \<noteq> Body \<longrightarrow> w_i ?w' = w_i ?w"
  proof
    assume nb: "w_pc ?w \<noteq> Body"
    then have "loop_steps_left (w_pc ?w) \<le> 2" by (simp add: loop_steps_left_def)
    with left have "loop_steps_left (w_pc ?w') \<le> 2" by simp
    then have "w_pc ?w' \<noteq> Body" by (auto simp: loop_steps_left_def)
    with nb r show "w_i ?w' = w_i ?w" by (simp add: reach_def)
  qed
  have i3: "w_i ?w + 1 < w_max_count ?w \<longrightarrow> w_i ?w' < w_max_count ?w'"
    using i1 mx by simp
  have out: "loop_steps_left (w_pc ?w) \<le> count_list sched (Worker k) \<longrightarrow> \<not> in_loop (w_pc ?w')"
    using left loop_left [of "w_pc ?w'"] by auto
  have "loop_steps_left (w_pc ?w) \<le> 3" by (simp add: loop_steps_left_def)
  with out have out3: "3 \<le> count_list sched (Worker k) \<longrightarrow> \<not> in_loop (w_pc ?w')"
    by simp
  from s1 ap off i1 i2 mx i3 out out3 show ?thesis by blast
qed

lemma published_Suc: "0 \<le> n \<Longrightarrow> published (n + 1) m = published n m @ [SetCounter (n + 1) m]"
  by (simp add: published_def upto_rec2)

lemma popups_no_run_event: "list_all is_popup qs \<Longrightarrow> filter is_run_event qs = []"
  by (induction qs) (auto simp: is_popup_def is_run_event_def split: event.splits)

lemma counting_worker_step:
  assumes inv: "counting_inv base m iv k s" and sl: "time_sleep iv = None"
  shows "counting_inv base m iv k (worker_step k s) \<and>
         steps_left m (workers (worker_step k s) ! k) = steps_left m (workers s ! k) - 1"
proof -
  let ?w = "workers s ! k"
  from inv have len: "length (workers s) = Suc k"
    and others: "\<forall>j < k. w_pc (workers s ! j) = Done"
    and mx: "auto_max_count s = m" and iv: "auto_interval s = iv"
    and wok: "worker_ok m iv (auto_running s) (print_scheduled s) ?w"
    and ev: "filter is_run_event (dispatched s @ queue s) = base @ emitted m ?w"
    and lp: "last_is_print (filter is_run_event (dispatched s)) \<longrightarrow> counter s = 0"
    by (simp_all add: counting_inv_def)
  have k: "k < length (workers s)" using len by simp
  show ?thesis
  proof (cases "w_pc ?w")
    case Start
    with wok k len others mx iv ev lp show ?thesis
      by (simp add: worker_step_def put_worker_def Let_def counting_inv_def worker_ok_def
          emitted_def after_guard_def in_loop_def steps_left_def nth_list_update)
  next
    case LoopTest
    show ?thesis
    proof (cases "w_i ?w < m")
      case True
      with LoopTest wok k have
        st: "worker_step k s = s\<lparr>workers := (workers s)[k := ?w\<lparr>w_pc := Body\<rparr>]\<rparr>"
        by (simp add: worker_step_def put_worker_def Let_def worker_ok_def in_loop_def)
      from LoopTest True wok k len others mx iv ev lp show ?thesis
        unfolding st
        by (simp add: counting_inv_def worker_ok_def emitted_def after_guard_def in_loop_def
            steps_left_def nth_list_update)
    next
      case False
      with LoopTest wok k have
        st: "worker_step k s = s\<lparr>workers := (workers s)[k := ?w\<lparr>w_pc := Guard\<rparr>]\<rparr>"
        by (simp add: worker_step_def put_worker_def Let_def worker_ok_def in_loop_def)
      from LoopTest False wok k len others mx iv ev lp show ?thesis
        unfolding st
        by (simp add: counting_inv_def worker_ok_def emitted_def after_guard_def in_loop_def
            steps_left_def nth_list_update)
    qed
  next
    case Body
    with wok have i: "0 \<le> w_i ?w" "w_i ?w < m" "w_max_count ?w = m"
      by (simp_all add: worker_ok_def)
    from Body wok k len others mx iv ev lp i show ?thesis
      by (simp add: worker_step_def put_worker_def after_def Let_def counting_inv_def worker_ok_def
          emitted_def after_guard_def in_loop_def steps_left_def nth_list_update
          published_Suc is_run_event_def)
  next
    case Sleep
    with wok have "w_interval ?w = iv" by (simp add: worker_ok_def)
    with Sleep wok k len others mx iv ev lp sl show ?thesis
      by (simp add: worker_step_def put_worker_def Let_def counting_inv_def worker_ok_def
          emitted_def after_guard_def in_loop_def steps_left_def nth_list_update)
  next
    case Guard
    with wok have ns: "\<not> print_scheduled s" by (simp add: worker_ok_def after_guard_def)
    from Guard wok k len others mx iv ev lp ns show ?thesis
      by (simp add: worker_step_def put_worker_def after_def Let_def counting_inv_def worker_ok_def
          emitted_def after_guard_def in_loop_def steps_left_def nth_list_update
          is_run_event_def)
  next
    case (Handler msg)
    with wok show ?thesis by (simp add: worker_ok_def)
  next
    case Finally
    with wok k len others mx iv ev lp show ?thesis
      by (simp add: worker_step_def put_worker_def Let_def counting_inv_def worker_ok_def
          emitted_def after_guard_def in_loop_def steps_left_def nth_list_update)
  next
    case Cleanup
    with wok k len others mx iv ev lp show ?thesis
      by (simp add: worker_step_def put_worker_def after_def Let_def counting_inv_def worker_ok_def
          emitted_def after_guard_def in_loop_def steps_left_def nth_list_update
          is_run_event_def)
  next
    case Done
    with inv k show ?thesis
      by (simp add: worker_step_def steps_left_def)
  qed
qed

lemma counting_other_worker:
  assumes "counting_inv base m iv k s" and "j \<noteq> k"
  shows "worker_step j s = s"
proof (cases "j < k")
  case True
  with assms(1) have "w_pc (workers s ! j) = Done" "j < length (workers s)"
    by (simp_all add: counting_inv_def)
  then show ?thesis by (simp add: worker_step_def)
next
  case False
  with assms have "\<not> j < length (workers s)" by (simp add: counting_inv_def)
  then show ?thesis by (simp add: worker_step_def)
qed

lemma counting_dispatch:
  assumes inv: "counting_inv base m iv k s"
  shows "counting_inv base m iv k (dispatch s) \<and> workers (dispatch s) = workers s"
proof (cases "queue s")
  case Nil
  with inv show ?thesis by (simp add: dispatch_def)
next
  case (Cons e q)
  let ?m = "s\<lparr>queue := q, dispatched := dispatched s @ [e]\<rparr>"
  let ?s' = "run_event e ?m"
  have d: "dispatch s = ?s'" using Cons by (simp add: dispatch_def)
  have "main_frame ?m ?s'" by (rule main_frame_run_event)
  then obtain qs where
    fr: "auto_running ?s' = auto_running s" "print_scheduled ?s' = print_scheduled s"
        "workers ?s' = workers s" "dispatched ?s' = dispatched s @ [e]"
        "auto_max_count ?s' = auto_max_count s" "auto_interval ?s' = auto_interval s"
        "queue ?s' = q @ qs" "list_all is_popup qs"
    by (auto simp: main_frame_def)
  have c: "counter ?s' =
      (case e of SetCounter v m \<Rightarrow> v | PrintAndReset \<Rightarrow> 0 | _ \<Rightarrow> counter s)"
    using run_event_counter [of e ?m] by (simp split: event.splits)
  from inv have ev: "filter is_run_event (dispatched s @ queue s) = base @ emitted m (workers s ! k)"
    and lp: "last_is_print (filter is_run_event (dispatched s)) \<longrightarrow> counter s = 0"
    by (simp_all add: counting_inv_def)
  have ev': "filter is_run_event (dispatched ?s' @ queue ?s') = base @ emitted m (workers ?s' ! k)"
    using ev Cons fr popups_no_run_event [OF fr(8)] by (cases "is_run_event e") simp_all
  have lp': "last_is_print (filter is_run_event (dispatched ?s')) \<longrightarrow> counter ?s' = 0"
  proof (cases "is_run_event e")
    case True
    then show ?thesis using c fr(4)
      by (cases e) (simp_all add: last_is_print_def is_run_event_def)
  next
    case False
    then have "counter ?s' = counter s" using c
      by (cases e) (simp_all add: is_run_event_def)
    with False lp fr(4) show ?thesis by simp
  qed
  from inv fr ev' lp' have "counting_inv base m iv k ?s'"
    by (simp add: counting_inv_def)
  with d fr(3) show ?thesis by simp
qed

lemma quiet_click_counter:
  "quiet (Click c) \<Longrightarrow> counter (run_click c s) = (if c = ResetCounter then 0 else counter s)"
proof (cases c)
  case PrintNow
  then show ?thesis
    using print_frame_print_count [of s] main_frame_print(2) by (simp add: safe_print_call_def)
next
  case TestNow
  then show ?thesis
    using print_frame_test_print [of s] main_frame_print(2)
    by (simp add: safe_test_print_call_def)
next
  case (SaveSettings v p i)
  then show ?thesis using main_frame_save_settings [of s v p i] by simp
qed (simp_all add: quiet_def is_toggle_def reset_counter_def)

lemma counting_click:
  assumes inv: "counting_inv base m iv k s" and q: "quiet (Click c)"
  shows "counting_inv base m iv k (run_click c s) \<and> workers (run_click c s) = workers s"
proof -
  let ?s' = "run_click c s"
  from q have "main_frame s ?s'" by (simp add: quiet_def main_frame_run_click)
  then obtain qs where
    fr: "auto_running ?s' = auto_running s" "print_scheduled ?s' = print_scheduled s"
        "workers ?s' = workers s" "dispatched ?s' = dispatched s"
        "auto_max_count ?s' = auto_max_count s" "auto_interval ?s' = auto_interval s"
        "queue ?s' = queue s @ qs" "list_all is_popup qs"
    by (auto simp: main_frame_def)
  have c: "counter ?s' = 0 \<or> counter ?s' = counter s"
    using quiet_click_counter [OF q, of s] by simp
  from inv have ev: "filter is_run_event (dispatched s @ queue s) = base @ emitted m (workers s ! k)"
    and lp: "last_is_print (filter is_run_event (dispatched s)) \<longrightarrow> counter s = 0"
    by (simp_all add: counting_inv_def)
  have ev': "filter is_run_event (dispatched ?s' @ queue ?s') = base @ emitted m (workers ?s' ! k)"
    using ev fr popups_no_run_event [OF fr(8)] by simp
  have lp': "last_is_print (filter is_run_event (dispatched ?s')) \<longrightarrow> counter ?s' = 0"
    using lp c fr(4) by auto
  from inv fr ev' lp' show ?thesis by (simp add: counting_inv_def)
qed

lemma counting_step:
  assumes inv: "counting_inv base m iv k s" and sl: "time_sleep iv = None"
    and q: "quiet a"
  shows "counting_inv base m iv k (step a s) \<and>
         steps_left m (workers (step a s) ! k) =
           steps_left m (workers s ! k) - (if a = Worker k then 1 else 0)"
proof (cases a)
  case (Worker j)
  show ?thesis
  proof (cases "j = k")
    case True
    with Worker counting_worker_step [OF inv sl] show ?thesis by simp
  next
    case False
    with Worker counting_other_worker [OF inv False] inv show ?thesis by simp
  qed
next
  case Dispatch
  with counting_dispatch [OF inv] show ?thesis by simp
next
  case (Probe b)
  with inv show ?thesis
    by (simp add: after_def counting_inv_def is_run_event_def)
next
  case (Click c)
  with q counting_click [OF inv, of c] show ?thesis by simp
qed

lemma counting_exec:
  assumes "counting_inv base m iv k s" and "time_sleep iv = None"
    and "list_all quiet sched"
  shows "counting_inv base m iv k (exec sched s) \<and>
         steps_left m (workers (exec sched s) ! k) =
           steps_left m (workers s ! k) - count_list sched (Worker k)"
  using assms
proof (induction sched arbitrary: s)
  case Nil
  then show ?case by simp
next
  case (Cons a sched)
  then have a: "quiet a" and rest: "list_all quiet sched"
    by simp_all
  note st = counting_step [OF Cons.prems(1,2) a]
  from st have inv': "counting_inv base m iv k (step a s)" by simp
  from Cons.IH [OF inv' Cons.prems(2) rest] st show ?case by auto
qed

lemma counting_start:
  assumes "\<not> auto_running s0" and "\<forall>w \<in> set (workers s0). w_pc w = Done"
  shows "counting_inv (filter is_run_event (dispatched s0 @ queue s0))
           (read_max_count me) (read_interval ie) (length (workers s0)) (toggle_auto me ie s0)"
proof -
  have "1 \<le> read_max_count me"
    by (simp add: read_max_count_def split: option.splits)
  with assms show ?thesis
    by (simp add: toggle_auto_def counting_inv_def worker_ok_def new_worker_def emitted_def
        published_def after_guard_def in_loop_def last_is_print_def nth_append)
qed

lemma steps_left_zero:
  "worker_ok m iv running scheduled w \<Longrightarrow> steps_left m w = 0 \<Longrightarrow> w_pc w = Done"
  by (cases "w_pc w") (auto simp: steps_left_def worker_ok_def)

lemma counting_end:
  assumes inv: "counting_inv base m iv k s" and dn: "w_pc (workers s ! k) = Done"
    and em: "filter is_run_event (queue s) = []"
  shows "filter is_run_event (dispatched s) = base @ published m m @ [PrintAndReset] \<and>
         counter s = 0"
proof -
  from inv dn have i: "w_i (workers s ! k) = m"
    by (simp add: counting_inv_def worker_ok_def after_guard_def)
  from inv have "filter is_run_event (dispatched s @ queue s) = base @ emitted m (workers s ! k)"
    by (simp add: counting_inv_def)
  with em dn i have tr: "filter is_run_event (dispatched s) = base @ published m m @ [PrintAndReset]"
    by (simp add: emitted_def after_guard_def)
  then have "last_is_print (filter is_run_event (dispatched s))"
    by (simp add: last_is_print_def)
  with inv tr show ?thesis by (simp add: counting_inv_def)
qed

lemma ten_counts: "published 10 10 = map (\<lambda>v. SetCounter v 10) [1, 2, 3, 4, 5, 6, 7, 8, 9, 10]"
  by (simp add: published_def upto.simps)

lemma read_ten: "read_max_count (Some ''10'') = 10"
  by (simp add: read_max_count_def text_defs)

lemma read_one: "read_interval (Some ''1.0'') = Fin 1"
  by (simp add: read_interval_def text_defs float_defs)

text \<open>
  C1. An auto run started with the texts \<^verbatim>\<open>10\<close> and \<^verbatim>\<open>1.0\<close> in the entry fields, when no run
  is active and every earlier worker has finished, along any schedule of worker steps,
  callbacks, probes and clicks other than on the auto button and on Add: after 35 steps
  of its own the worker has finished; at every moment the run events handed to the main loop are the earlier ones
  followed by the publications of 1, 2, ... up to the count reached, followed by the one
  automatic print once it is scheduled; and when the worker has finished and no run
  event is pending, the run events the main loop has run are the earlier ones, then the
  publications of 1, 2, ..., 10 in this order, then exactly one automatic print, and the
  counter is 0.
\<close>

theorem auto_run_counts_to_ten_then_prints_once:
  assumes "\<not> auto_running s0" and "\<forall>w \<in> set (workers s0). w_pc w = Done"
    and "list_all quiet sched"
  shows "(35 \<le> count_list sched (Worker (length (workers s0))) \<longrightarrow>
            w_pc (workers (exec sched (toggle_auto (Some ''10'') (Some ''1.0'') s0))
                    ! length (workers s0)) = Done) \<and>
         (\<exists>n. 0 \<le> n \<and> n \<le> 10 \<and>
              filter is_run_event
                (dispatched (exec sched (toggle_auto (Some ''10'') (Some ''1.0'') s0)) @
                 queue (exec sched (toggle_auto (Some ''10'') (Some ''1.0'') s0))) =
              filter is_run_event (dispatched s0 @ queue s0) @ published n 10 @
              (if print_scheduled (exec sched (toggle_auto (Some ''10'') (Some ''1.0'') s0))
               then [PrintAndReset] else [])) \<and>
         (w_pc (workers (exec sched (toggle_auto (Some ''10'') (Some ''1.0'') s0))
                  ! length (workers s0)) = Done \<and>
          filter is_run_event (queue (exec sched (toggle_auto (Some ''10'') (Some ''1.0'') s0))) = []
          \<longrightarrow>
            filter is_run_event (dispatched (exec sched (toggle_auto (Some ''10'') (Some ''1.0'') s0))) =
              filter is_run_event (dispatched s0 @ queue s0) @
              map (\<lambda>v. SetCounter v 10) [1, 2, 3, 4, 5, 6, 7, 8, 9, 10] @ [PrintAndReset] \<and>
            counter (exec sched (toggle_auto (Some ''10'') (Some ''1.0'') s0)) = 0)"
proof -
  let ?k = "length (workers s0)"
  let ?s1 = "toggle_auto (Some ''10'') (Some ''1.0'') s0"
  let ?s' = "exec sched ?s1"
  let ?base = "filter is_run_event (dispatched s0 @ queue s0)"
  have start: "counting_inv ?base 10 (Fin 1) ?k ?s1"
    using counting_start [OF assms(1,2), of "Some ''10''" "Some ''1.0''"]
    by (simp add: read_ten read_one)
  have sl: "time_sleep (Fin 1) = None" by (simp add: time_sleep_def)
  from counting_exec [OF start sl assms(3)]
  have inv: "counting_inv ?base 10 (Fin 1) ?k ?s'"
    and left: "steps_left 10 (workers ?s' ! ?k) =
               steps_left 10 (workers ?s1 ! ?k) - count_list sched (Worker ?k)"
    by simp_all
  have "workers ?s1 ! ?k = new_worker"
    using assms(1) by (simp add: toggle_auto_def)
  then have "steps_left 10 (workers ?s1 ! ?k) = 35"
    by (simp add: steps_left_def new_worker_def)
  with left have left': "steps_left 10 (workers ?s' ! ?k) = 35 - count_list sched (Worker ?k)"
    by simp
  from inv have wok: "worker_ok 10 (Fin 1) (auto_running ?s') (print_scheduled ?s') (workers ?s' ! ?k)"
    by (simp add: counting_inv_def)
  have finished: "35 \<le> count_list sched (Worker ?k) \<longrightarrow> w_pc (workers ?s' ! ?k) = Done"
    using left' steps_left_zero [OF wok] by simp
  have segment: "\<exists>n. 0 \<le> n \<and> n \<le> 10 \<and>
      filter is_run_event (dispatched ?s' @ queue ?s') =
        ?base @ published n 10 @ (if print_scheduled ?s' then [PrintAndReset] else [])"
  proof -
    from inv have "filter is_run_event (dispatched ?s' @ queue ?s') =
        ?base @ emitted 10 (workers ?s' ! ?k)"
      by (simp add: counting_inv_def)
    moreover from wok have "0 \<le> w_i (workers ?s' ! ?k)" "w_i (workers ?s' ! ?k) \<le> 10"
      "print_scheduled ?s' \<longleftrightarrow> after_guard (w_pc (workers ?s' ! ?k))"
      by (simp_all add: worker_ok_def)
    ultimately show ?thesis
      unfolding emitted_def by (intro exI [of _ "w_i (workers ?s' ! ?k)"]) simp
  qed
  have complete: "w_pc (workers ?s' ! ?k) = Done \<and> filter is_run_event (queue ?s') = [] \<longrightarrow>
      filter is_run_event (dispatched ?s') =
        ?base @ map (\<lambda>v. SetCounter v 10) [1, 2, 3, 4, 5, 6, 7, 8, 9, 10] @ [PrintAndReset] \<and>
      counter ?s' = 0"
    using counting_end [OF inv] by (simp add: ten_counts)
  from finished segment complete show ?thesis by blast
qed

lemma fresh_fields:
  "counter (fresh orc) = 0" "printer (fresh orc) = None" "auto_running (fresh orc) = False"
  "stopped_by_user (fresh orc) = False" "print_lock (fresh orc) = False"
  "print_scheduled (fresh orc) = False" "device_connected (fresh orc) = False"
  "auto_max_count (fresh orc) = 10" "auto_interval (fresh orc) = Fin 1"
  "config (fresh orc) = DEFAULT_CONFIG" "config_file (fresh orc) = Missing"
  "popups (fresh orc) = []" "queue (fresh orc) = []" "dispatched (fresh orc) = []"
  "workers (fresh orc) = []" "outcomes (fresh orc) = orc" "io_log (fresh orc) = []"
  "next_handle (fresh orc) = 0" "clock (fresh orc) = (''04-11-2026 09:30:00'', 1793784600)"
  by (simp_all add: fresh_def)

lemmas run_defs = toggle_auto_def read_max_count_def read_interval_def
  new_worker_def worker_step_def put_worker_def dispatch_def time_sleep_def
  after_def set_counter_from_thread_def print_and_reset_def
  safe_print_call_def auto_cleanup_ui_def

lemma start10:
  "toggle_auto (Some ''10'') (Some ''1.0'') (fresh []) =
     (fresh [])\<lparr>auto_max_count := 10, auto_interval := Fin 1, auto_running := True,
       counter := 0, stopped_by_user := False, print_scheduled := False,
       workers := [new_worker]\<rparr>"
  by (simp add: toggle_auto_def read_ten read_one fresh_fields)

lemma counted_reached:
  "exec (replicate 35 (Worker 0) @ replicate 10 Dispatch)
     (toggle_auto (Some ''10'') (Some ''1.0'') (fresh [])) = counted"
  unfolding start10 counted_def
  by (simp add: eval_nat_numeral run_defs Let_def fresh_fields)

lemma counted_printed:
  "dispatched (exec [Dispatch, Dispatch] counted) =
     map (\<lambda>v. SetCounter v 10) [1, 2, 3, 4, 5, 6, 7, 8, 9, 10] @ [PrintAndReset, AutoCleanup] \<and>
   queue (exec [Dispatch, Dispatch] counted) = []"
  by (simp add: counted_def run_defs print_defs job_defs text_defs Let_def fresh_fields)

lemma full_run_split:
  "full_run = (replicate 35 (Worker 0) @ replicate 10 Dispatch) @ [Dispatch, Dispatch]"
  by (simp add: full_run_def eval_nat_numeral)

lemma full_run_reaches:
  "exec full_run (toggle_auto (Some ''10'') (Some ''1.0'') (fresh [])) =
     exec [Dispatch, Dispatch] counted"
proof -
  have "exec ((replicate 35 (Worker 0) @ replicate 10 Dispatch) @ [Dispatch, Dispatch])
          (toggle_auto (Some ''10'') (Some ''1.0'') (fresh [])) =
        exec [Dispatch, Dispatch]
          (exec (replicate 35 (Worker 0) @ replicate 10 Dispatch)
             (toggle_auto (Some ''10'') (Some ''1.0'') (fresh [])))"
    by (rule exec_append)
  then show ?thesis by (simp only: full_run_split counted_reached)
qed

lemma full_run_quiet: "list_all quiet full_run"
  by (simp add: full_run_def quiet_def is_toggle_def list_all_iff)

lemma full_run_worker_steps: "count_list full_run (Worker 0) = 35"
  by (simp add: full_run_def eval_nat_numeral)

theorem auto_run_counts_to_ten_then_prints_once_witness:
  "auto_running (fresh []) = False \<and> workers (fresh []) = [] \<and>
   list_all quiet full_run \<and>
   count_list full_run (Worker 0) = 35 \<and>
   w_pc (workers (exec full_run (toggle_auto (Some ''10'') (Some ''1.0'') (fresh []))) ! 0) = Done \<and>
   queue (exec full_run (toggle_auto (Some ''10'') (Some ''1.0'') (fresh []))) = [] \<and>
   dispatched (exec full_run (toggle_auto (Some ''10'') (Some ''1.0'') (fresh []))) =
     map (\<lambda>v. SetCounter v 10) [1, 2, 3, 4, 5, 6, 7, 8, 9, 10] @ [PrintAndReset, AutoCleanup] \<and>
   filter is_run_event (dispatched (exec full_run (toggle_auto (Some ''10'') (Some ''1.0'') (fresh [])))) =
     map (\<lambda>v. SetCounter v 10) [1, 2, 3, 4, 5, 6, 7, 8, 9, 10] @ [PrintAndReset] \<and>
   counter (exec full_run (toggle_auto (Some ''10'') (Some ''1.0'') (fresh []))) = 0"
proof -
  let ?s' = "exec full_run (toggle_auto (Some ''10'') (Some ''1.0'') (fresh []))"
  have idle: "\<not> auto_running (fresh [])" and none: "\<forall>w \<in> set (workers (fresh [])). w_pc w = Done"
    and empty: "workers (fresh []) = []" "dispatched (fresh []) = []" "queue (fresh []) = []"
    by (simp_all add: fresh_fields)
  have q: "queue ?s' = []"
    and d: "dispatched ?s' =
      map (\<lambda>v. SetCounter v 10) [1, 2, 3, 4, 5, 6, 7, 8, 9, 10] @ [PrintAndReset, AutoCleanup]"
    using counted_printed by (simp_all add: full_run_reaches)
  note run = auto_run_counts_to_ten_then_prints_once [OF idle none full_run_quiet]
  from run full_run_worker_steps empty have dn: "w_pc (workers ?s' ! 0) = Done"
    by simp
  from run dn q empty have
    "filter is_run_event (dispatched ?s') =
       map (\<lambda>v. SetCounter v 10) [1, 2, 3, 4, 5, 6, 7, 8, 9, 10] @ [PrintAndReset]"
    and "counter ?s' = 0"
    by simp_all
  with idle empty full_run_quiet full_run_worker_steps dn q d show ?thesis by simp
qed

lemma mid_run_reached:
  "exec (replicate 5 (Worker 0)) (toggle_auto (Some ''10'') (Some ''1.0'') (fresh [])) = mid_run"
  unfolding start10 mid_run_def
  by (simp add: eval_nat_numeral run_defs Let_def fresh_fields)

lemma after_stop_result:
  "w_i (workers (exec after_stop (toggle_auto None None mid_run)) ! 0) = 2 \<and>
   w_pc (workers (exec after_stop (toggle_auto None None mid_run)) ! 0) = Guard \<and>
   dispatched (exec after_stop (toggle_auto None None mid_run)) = [SetCounter 1 10, SetCounter 2 10] \<and>
   auto_prints (exec after_stop (toggle_auto None None mid_run)) = 0"
  by (simp add: after_stop_def mid_run_def run_defs manual_add_def auto_prints_def Let_def
      fresh_fields)

theorem stop_ends_the_loop_witness:
  "auto_running mid_run \<and> w_pc (workers mid_run ! 0) = Body \<and> w_i (workers mid_run ! 0) = 1 \<and>
   w_max_count (workers mid_run ! 0) = 10 \<and>
   list_all (\<lambda>a. \<not> is_toggle a) after_stop \<and> count_list after_stop (Worker 0) = 3 \<and>
   toggle_auto None None mid_run = mid_run\<lparr>stopped_by_user := True, auto_running := False\<rparr> \<and>
   w_i (workers (exec after_stop (toggle_auto None None mid_run)) ! 0) = 2 \<and>
   w_pc (workers (exec after_stop (toggle_auto None None mid_run)) ! 0) = Guard \<and>
   in_loop (w_pc (workers (exec after_stop (toggle_auto None None mid_run)) ! 0)) = False \<and>
   auto_running (exec after_stop (toggle_auto None None mid_run)) = False \<and>
   auto_prints (exec after_stop (toggle_auto None None mid_run)) = 0"
proof -
  have on: "auto_running mid_run" and k: "0 < length (workers mid_run)"
    and w: "w_pc (workers mid_run ! 0) = Body" "w_i (workers mid_run ! 0) = 1"
      "w_max_count (workers mid_run ! 0) = 10"
    by (simp_all add: mid_run_def)
  have lp: "in_loop (w_pc (workers mid_run ! 0))" using w by (simp add: in_loop_def)
  have nt: "list_all (\<lambda>a. \<not> is_toggle a) after_stop"
    by (simp add: after_stop_def is_toggle_def)
  have cnt: "count_list after_stop (Worker 0) = 3" by (simp add: after_stop_def)
  note stop = stop_ends_the_loop [OF on k lp nt, of None None]
  from stop have eq: "toggle_auto None None mid_run =
      mid_run\<lparr>stopped_by_user := True, auto_running := False\<rparr>"
    and off: "\<not> auto_running (exec after_stop (toggle_auto None None mid_run))"
    by blast+
  from stop have "3 \<le> count_list after_stop (Worker 0) \<longrightarrow>
      \<not> in_loop (w_pc (workers (exec after_stop (toggle_auto None None mid_run)) ! 0))"
    by blast
  with cnt have out: "\<not> in_loop (w_pc (workers (exec after_stop (toggle_auto None None mid_run)) ! 0))"
    by simp
  from on w nt cnt eq off out after_stop_result show ?thesis by simp
qed

end
